theory Spec2Isabelle
  imports Main
begin

section \<open>Platform model\<close>

text \<open>
  The development embeds \<^verbatim>\<open>advanced-vector/vector.h\<close>: the class templates
  \<^verbatim>\<open>RawMemory<T>\<close> and \<^verbatim>\<open>Vector<T>\<close>.

  \<^verbatim>\<open>size_t\<close> is taken to be 64 bits wide. Sizes are natural numbers and every
  place where the source computes in \<^verbatim>\<open>size_t\<close> and could leave the range writes the
  wrap-around out.
\<close>

definition SIZE_MAX :: nat where
  "SIZE_MAX = 2 ^ 64 - 1"

definition PTRDIFF_MAX :: nat where
  "PTRDIFF_MAX = 2 ^ 63 - 1"

definition size_t :: "nat \<Rightarrow> nat" where
  "size_t n = n mod 2 ^ 64"

definition size_t_sub :: "nat \<Rightarrow> nat \<Rightarrow> nat" where
  "size_t_sub a b = (a + 2 ^ 64 - b mod 2 ^ 64) mod 2 ^ 64"

text \<open>
  Exceptions. \<^verbatim>\<open>std::bad_alloc\<close> and the element type's own exceptions derived from
  \<^verbatim>\<open>std::exception\<close> are caught by a handler \<^verbatim>\<open>catch (const std::exception &)\<close>;
  anything else an element operation throws is caught by \<^verbatim>\<open>catch (...)\<close> only.
\<close>

datatype exn = bad_alloc | std_exception | foreign_exception

fun derives_std_exception :: "exn \<Rightarrow> bool" where
  "derives_std_exception bad_alloc = True"
| "derives_std_exception std_exception = True"
| "derives_std_exception foreign_exception = False"

text \<open>
  A call returns a value and a state, leaves by an exception with a state, or is a
  \<open>Fault\<close>: a failed \<^verbatim>\<open>assert\<close> or an access the language leaves undefined (a slot
  outside its block, a released block, reading storage that holds no object).
\<close>

datatype ('r, 's) outcome = Return 'r 's | Throw exn 's | Fault

definition bind :: "('s \<Rightarrow> ('a, 's) outcome) \<Rightarrow> ('a \<Rightarrow> 's \<Rightarrow> ('b, 's) outcome) \<Rightarrow> 's \<Rightarrow> ('b, 's) outcome" where
  "bind m f s = (case m s of Return r s' \<Rightarrow> f r s' | Throw e s' \<Rightarrow> Throw e s' | Fault \<Rightarrow> Fault)"

text \<open>
  \<open>catch_rethrow handles cleanup body\<close> is
  \<^verbatim>\<open>try { body } catch (<handles>) { cleanup; throw; }\<close>.
  With \<open>handles = (\<lambda>_. True)\<close> it is also the destructor of a local object run while an
  exception unwinds the stack.
\<close>

definition catch_rethrow :: "(exn \<Rightarrow> bool) \<Rightarrow> ('s \<Rightarrow> (unit, 's) outcome) \<Rightarrow> ('s \<Rightarrow> ('r, 's) outcome) \<Rightarrow> 's \<Rightarrow> ('r, 's) outcome" where
  "catch_rethrow handles cleanup body s =
     (case body s of
        Throw e s' \<Rightarrow>
          (if handles e
           then (case cleanup s' of
                   Return _ s'' \<Rightarrow> Throw e s''
                 | Throw e' s'' \<Rightarrow> Throw e' s''
                 | Fault \<Rightarrow> Fault)
           else Throw e s')
      | r \<Rightarrow> r)"

definition catch_all :: "exn \<Rightarrow> bool" where
  "catch_all e = True"

section \<open>Storage and the element type\<close>

text \<open>
  A slot of a block is raw storage or holds a constructed object. A pointer \<^verbatim>\<open>T*\<close> is a
  block and an index in it; \<^verbatim>\<open>nullptr\<close> has no block.
\<close>

datatype 'a slot = Raw | Obj 'a

datatype ptr = Ptr (blk: "nat option") (idx: nat)

definition nullptr :: ptr where
  "nullptr = Ptr None 0"

definition ptr_add :: "ptr \<Rightarrow> nat \<Rightarrow> ptr" where
  "ptr_add p n = Ptr (blk p) (idx p + n)"

text \<open>
  \<^verbatim>\<open>p - q\<close> converted to \<^verbatim>\<open>size_t\<close>. The difference is defined inside one array only and
  has to fit \<^verbatim>\<open>ptrdiff_t\<close>.
\<close>

definition ptr_diff :: "ptr \<Rightarrow> ptr \<Rightarrow> nat option" where
  "ptr_diff p q =
     (if blk p \<noteq> blk q then None
      else if idx q \<le> idx p
           then (if idx p - idx q \<le> PTRDIFF_MAX then Some (idx p - idx q) else None)
           else (if idx q - idx p \<le> PTRDIFF_MAX + 1 then Some (size_t_sub 0 (idx q - idx p)) else None))"

text \<open>
  Every call of an element operation is recorded, in order, with the values it works on.
  \<open>CopyAssign y x\<close> and \<open>MoveAssign y x\<close> assign \<open>x\<close> to an object holding \<open>y\<close>.
\<close>

datatype 'a elem_op =
    DefaultCtor
  | ValueCtor
  | ArgsCtor 'a
  | CopyCtor 'a
  | MoveCtor 'a
  | CopyAssign 'a 'a
  | MoveAssign 'a 'a

text \<open>
  The world: the free store (a released block stays in the list as \<open>None\<close>), the sizes
  passed to \<^verbatim>\<open>operator new\<close>, the element operations called and the destructors called.
\<close>

record 'a world =
  heap :: "'a slot list option list"
  new_calls :: "nat list"
  trace :: "'a elem_op list"
  dtor_log :: "ptr list"

text \<open>
  The template argument \<^verbatim>\<open>T\<close> and the allocator. \<open>throws k op\<close> says whether the
  \<open>k\<close>-th element operation of the run, being \<open>op\<close>, throws, and what; \<open>new_fails k n\<close>
  whether the \<open>k\<close>-th call of \<^verbatim>\<open>operator new\<close>, for \<open>n\<close> bytes, fails.
\<close>

record 'a env =
  sizeof :: nat
  nothrow_move_constructible :: bool
  copy_constructible :: bool
  default_init :: 'a
  value_init :: 'a
  moved_from :: "'a \<Rightarrow> 'a"
  throws :: "nat \<Rightarrow> 'a elem_op \<Rightarrow> exn option"
  new_fails :: "nat \<Rightarrow> nat \<Rightarrow> bool"

subsection \<open>The free store\<close>

text \<open>
  \<^verbatim>\<open>operator new(bytes)\<close>. No implementation hands out an object larger than
  \<^verbatim>\<open>PTRDIFF_MAX\<close> bytes; below that the allocator decides. The block has room for as
  many elements as fit in the bytes obtained.
\<close>

definition allocation_fails :: "'a env \<Rightarrow> 'a world \<Rightarrow> nat \<Rightarrow> bool" where
  "allocation_fails env w bytes = (PTRDIFF_MAX < bytes \<or> new_fails env (length (new_calls w)) bytes)"

definition operator_new :: "'a env \<Rightarrow> nat \<Rightarrow> 'a world \<Rightarrow> (ptr, 'a world) outcome" where
  "operator_new env bytes w =
     (if allocation_fails env w bytes
      then Throw bad_alloc (w\<lparr>new_calls := new_calls w @ [bytes]\<rparr>)
      else Return (Ptr (Some (length (heap w))) 0)
             (w\<lparr>heap := heap w @ [Some (replicate (bytes div sizeof env) Raw)],
                new_calls := new_calls w @ [bytes]\<rparr>))"

definition block_at :: "'a world \<Rightarrow> nat \<Rightarrow> 'a slot list option" where
  "block_at w b = (if b < length (heap w) then heap w ! b else None)"

definition operator_delete :: "ptr \<Rightarrow> 'a world \<Rightarrow> (unit, 'a world) outcome" where
  "operator_delete p w =
     (case blk p of
        None \<Rightarrow> Return () w
      | Some b \<Rightarrow>
          (case block_at w b of
             None \<Rightarrow> Fault
           | Some _ \<Rightarrow> if idx p = 0 then Return () (w\<lparr>heap := (heap w)[b := None]\<rparr>) else Fault))"

definition slot_at :: "'a world \<Rightarrow> ptr \<Rightarrow> 'a slot option" where
  "slot_at w p =
     (case blk p of
        None \<Rightarrow> None
      | Some b \<Rightarrow>
          (case block_at w b of
             None \<Rightarrow> None
           | Some ss \<Rightarrow> if idx p < length ss then Some (ss ! idx p) else None))"

definition obj_at :: "'a world \<Rightarrow> ptr \<Rightarrow> 'a option" where
  "obj_at w p = (case slot_at w p of Some (Obj x) \<Rightarrow> Some x | _ \<Rightarrow> None)"

definition put_slot :: "ptr \<Rightarrow> 'a slot \<Rightarrow> 'a world \<Rightarrow> 'a world" where
  "put_slot p s w =
     (case blk p of
        None \<Rightarrow> w
      | Some b \<Rightarrow>
          (case block_at w b of
             None \<Rightarrow> w
           | Some ss \<Rightarrow> w\<lparr>heap := (heap w)[b := Some (ss[idx p := s])]\<rparr>))"

subsection \<open>Element operations\<close>

definition call_op :: "'a env \<Rightarrow> 'a elem_op \<Rightarrow> 'a world \<Rightarrow> (unit, 'a world) outcome" where
  "call_op env op w =
     (case throws env (length (trace w)) op of
        Some e \<Rightarrow> Throw e (w\<lparr>trace := trace w @ [op]\<rparr>)
      | None \<Rightarrow> Return () (w\<lparr>trace := trace w @ [op]\<rparr>))"

text \<open>A move constructor declared \<^verbatim>\<open>noexcept\<close> lets no exception out.\<close>

definition call_move_ctor :: "'a env \<Rightarrow> 'a \<Rightarrow> 'a world \<Rightarrow> (unit, 'a world) outcome" where
  "call_move_ctor env x w =
     (if nothrow_move_constructible env
      then Return () (w\<lparr>trace := trace w @ [MoveCtor x]\<rparr>)
      else call_op env (MoveCtor x) w)"

definition place :: "ptr \<Rightarrow> 'a \<Rightarrow> 'a world \<Rightarrow> (unit, 'a world) outcome" where
  "place p x w = (case slot_at w p of None \<Rightarrow> Fault | Some _ \<Rightarrow> Return () (put_slot p (Obj x) w))"

text \<open>
  The arguments of \<^verbatim>\<open>Emplace\<close>: an object outside the array to copy, one to move from, or
  arguments of another constructor that builds the given value.
\<close>

datatype 'a args = ByCopy 'a | ByMove 'a | ByArgs 'a

fun arg_value :: "'a args \<Rightarrow> 'a" where
  "arg_value (ByCopy x) = x"
| "arg_value (ByMove x) = x"
| "arg_value (ByArgs x) = x"

fun call_ctor :: "'a env \<Rightarrow> 'a args \<Rightarrow> 'a world \<Rightarrow> (unit, 'a world) outcome" where
  "call_ctor env (ByCopy x) w = call_op env (CopyCtor x) w"
| "call_ctor env (ByMove x) w = call_move_ctor env x w"
| "call_ctor env (ByArgs x) w = call_op env (ArgsCtor x) w"

text \<open>\<^verbatim>\<open>std::construct_at(p, args...)\<close> and \<^verbatim>\<open>T tmp(args...)\<close>.\<close>

definition construct_at :: "'a env \<Rightarrow> ptr \<Rightarrow> 'a args \<Rightarrow> 'a world \<Rightarrow> (unit, 'a world) outcome" where
  "construct_at env p a = bind (call_ctor env a) (\<lambda>_. place p (arg_value a))"

definition construct_tmp :: "'a env \<Rightarrow> 'a args \<Rightarrow> 'a world \<Rightarrow> ('a, 'a world) outcome" where
  "construct_tmp env a = bind (call_ctor env a) (\<lambda>_. Return (arg_value a))"

text \<open>\<^verbatim>\<open>new (dst) T(*src)\<close> and \<^verbatim>\<open>new (dst) T(std::move(*src))\<close>.\<close>

definition copy_construct :: "'a env \<Rightarrow> ptr \<Rightarrow> ptr \<Rightarrow> 'a world \<Rightarrow> (unit, 'a world) outcome" where
  "copy_construct env dst src w =
     (case obj_at w src of
        None \<Rightarrow> Fault
      | Some x \<Rightarrow> bind (call_op env (CopyCtor x)) (\<lambda>_. place dst x) w)"

definition move_construct :: "'a env \<Rightarrow> ptr \<Rightarrow> ptr \<Rightarrow> 'a world \<Rightarrow> (unit, 'a world) outcome" where
  "move_construct env dst src w =
     (case obj_at w src of
        None \<Rightarrow> Fault
      | Some x \<Rightarrow>
          bind (call_move_ctor env x)
            (\<lambda>_. bind (place dst x) (\<lambda>_ w'. Return () (put_slot src (Obj (moved_from env x)) w'))) w)"

definition default_construct :: "'a env \<Rightarrow> ptr \<Rightarrow> 'a world \<Rightarrow> (unit, 'a world) outcome" where
  "default_construct env dst = bind (call_op env DefaultCtor) (\<lambda>_. place dst (default_init env))"

definition value_construct :: "'a env \<Rightarrow> ptr \<Rightarrow> 'a world \<Rightarrow> (unit, 'a world) outcome" where
  "value_construct env dst = bind (call_op env ValueCtor) (\<lambda>_. place dst (value_init env))"

text \<open>\<^verbatim>\<open>*dst = *src\<close>, \<^verbatim>\<open>*dst = std::move(*src)\<close> and \<^verbatim>\<open>*dst = std::move(tmp)\<close>.\<close>

definition copy_assign :: "'a env \<Rightarrow> ptr \<Rightarrow> ptr \<Rightarrow> 'a world \<Rightarrow> (unit, 'a world) outcome" where
  "copy_assign env dst src w =
     (case (obj_at w dst, obj_at w src) of
        (Some y, Some x) \<Rightarrow> bind (call_op env (CopyAssign y x)) (\<lambda>_. place dst x) w
      | _ \<Rightarrow> Fault)"

definition move_assign :: "'a env \<Rightarrow> ptr \<Rightarrow> ptr \<Rightarrow> 'a world \<Rightarrow> (unit, 'a world) outcome" where
  "move_assign env dst src w =
     (case (obj_at w dst, obj_at w src) of
        (Some y, Some x) \<Rightarrow>
          bind (call_op env (MoveAssign y x))
            (\<lambda>_ w'. Return () (put_slot dst (Obj x) (put_slot src (Obj (moved_from env x)) w'))) w
      | _ \<Rightarrow> Fault)"

definition move_assign_tmp :: "'a env \<Rightarrow> ptr \<Rightarrow> 'a \<Rightarrow> 'a world \<Rightarrow> (unit, 'a world) outcome" where
  "move_assign_tmp env dst x w =
     (case obj_at w dst of
        Some y \<Rightarrow> bind (call_op env (MoveAssign y x)) (\<lambda>_. place dst x) w
      | None \<Rightarrow> Fault)"

text \<open>
  \<^verbatim>\<open>std::destroy_at(p)\<close> runs the destructor of the object at \<open>p\<close> and leaves raw
  storage; the call is recorded. On a slot that holds no object (raw storage, or an object
  already destroyed) the call is undefined: a \<open>Fault\<close>.
\<close>

definition destroy_at :: "ptr \<Rightarrow> 'a world \<Rightarrow> (unit, 'a world) outcome" where
  "destroy_at p w =
     (case obj_at w p of
        None \<Rightarrow> Fault
      | Some _ \<Rightarrow> Return () ((put_slot p Raw w)\<lparr>dtor_log := dtor_log w @ [p]\<rparr>))"

subsection \<open>Algorithms of the standard library\<close>

text \<open>\<^verbatim>\<open>std::destroy_n(first, n)\<close>; the counter \<open>k\<close> is the number of elements done.\<close>

fun destroy_loop :: "ptr \<Rightarrow> nat \<Rightarrow> nat \<Rightarrow> 'a world \<Rightarrow> (unit, 'a world) outcome" where
  "destroy_loop first k 0 w = Return () w"
| "destroy_loop first k (Suc n) w =
     (case destroy_at (ptr_add first k) w of
        Return _ w' \<Rightarrow> destroy_loop first (Suc k) n w'
      | Throw e w' \<Rightarrow> Throw e w'
      | Fault \<Rightarrow> Fault)"

definition destroy_n :: "ptr \<Rightarrow> nat \<Rightarrow> 'a world \<Rightarrow> (unit, 'a world) outcome" where
  "destroy_n first n = destroy_loop first 0 n"

text \<open>
  The \<^verbatim>\<open>std::uninitialized_*_n\<close> family: construct \<open>n\<close> objects from \<open>d_first\<close> on; when
  a constructor throws, destroy the objects built so far and rethrow.
\<close>

fun uninitialized_loop :: "(nat \<Rightarrow> 'a world \<Rightarrow> (unit, 'a world) outcome) \<Rightarrow> ptr \<Rightarrow> nat \<Rightarrow> nat \<Rightarrow> 'a world \<Rightarrow> (unit, 'a world) outcome" where
  "uninitialized_loop ctor d_first k 0 w = Return () w"
| "uninitialized_loop ctor d_first k (Suc n) w =
     (case ctor k w of
        Return _ w' \<Rightarrow> uninitialized_loop ctor d_first (Suc k) n w'
      | Throw e w' \<Rightarrow>
          (case destroy_n d_first k w' of
             Return _ w'' \<Rightarrow> Throw e w''
           | Throw e' w'' \<Rightarrow> Throw e' w''
           | Fault \<Rightarrow> Fault)
      | Fault \<Rightarrow> Fault)"

definition uninitialized_copy_n :: "'a env \<Rightarrow> ptr \<Rightarrow> nat \<Rightarrow> ptr \<Rightarrow> 'a world \<Rightarrow> (unit, 'a world) outcome" where
  "uninitialized_copy_n env first n d_first =
     uninitialized_loop (\<lambda>k. copy_construct env (ptr_add d_first k) (ptr_add first k)) d_first 0 n"

definition uninitialized_move_n :: "'a env \<Rightarrow> ptr \<Rightarrow> nat \<Rightarrow> ptr \<Rightarrow> 'a world \<Rightarrow> (unit, 'a world) outcome" where
  "uninitialized_move_n env first n d_first =
     uninitialized_loop (\<lambda>k. move_construct env (ptr_add d_first k) (ptr_add first k)) d_first 0 n"

definition uninitialized_default_construct_n :: "'a env \<Rightarrow> ptr \<Rightarrow> nat \<Rightarrow> 'a world \<Rightarrow> (unit, 'a world) outcome" where
  "uninitialized_default_construct_n env d_first n =
     uninitialized_loop (\<lambda>k. default_construct env (ptr_add d_first k)) d_first 0 n"

definition uninitialized_value_construct_n :: "'a env \<Rightarrow> ptr \<Rightarrow> nat \<Rightarrow> 'a world \<Rightarrow> (unit, 'a world) outcome" where
  "uninitialized_value_construct_n env d_first n =
     uninitialized_loop (\<lambda>k. value_construct env (ptr_add d_first k)) d_first 0 n"

text \<open>
  \<^verbatim>\<open>std::move(first, first + n, d_first)\<close> assigns front to back,
  \<^verbatim>\<open>std::move_backward(first, first + n, d_first + n)\<close> back to front.
\<close>

fun move_loop :: "'a env \<Rightarrow> ptr \<Rightarrow> ptr \<Rightarrow> nat \<Rightarrow> nat \<Rightarrow> 'a world \<Rightarrow> (unit, 'a world) outcome" where
  "move_loop env first d_first k 0 w = Return () w"
| "move_loop env first d_first k (Suc n) w =
     (case move_assign env (ptr_add d_first k) (ptr_add first k) w of
        Return _ w' \<Rightarrow> move_loop env first d_first (Suc k) n w'
      | Throw e w' \<Rightarrow> Throw e w'
      | Fault \<Rightarrow> Fault)"

definition std_move :: "'a env \<Rightarrow> ptr \<Rightarrow> nat \<Rightarrow> ptr \<Rightarrow> 'a world \<Rightarrow> (unit, 'a world) outcome" where
  "std_move env first n d_first = move_loop env first d_first 0 n"

fun move_backward :: "'a env \<Rightarrow> ptr \<Rightarrow> nat \<Rightarrow> ptr \<Rightarrow> 'a world \<Rightarrow> (unit, 'a world) outcome" where
  "move_backward env first 0 d_first w = Return () w"
| "move_backward env first (Suc n) d_first w =
     (case move_assign env (ptr_add d_first n) (ptr_add first n) w of
        Return _ w' \<Rightarrow> move_backward env first n d_first w'
      | Throw e w' \<Rightarrow> Throw e w'
      | Fault \<Rightarrow> Fault)"

section \<open>RawMemory\<close>

record RawMemory =
  buffer_m :: ptr
  capacity_m :: nat

definition RawMemory_default :: RawMemory where
  "RawMemory_default = \<lparr>buffer_m = nullptr, capacity_m = 0\<rparr>"

text \<open>\<^verbatim>\<open>n != 0 ? operator new(n * sizeof(T)) : nullptr\<close>; the product is a \<^verbatim>\<open>size_t\<close>.\<close>

definition RawMemory_Allocate :: "'a env \<Rightarrow> nat \<Rightarrow> 'a world \<Rightarrow> (ptr, 'a world) outcome" where
  "RawMemory_Allocate env n w =
     (if n \<noteq> 0 then operator_new env (size_t (n * sizeof env)) w else Return nullptr w)"

definition RawMemory_Deallocate :: "ptr \<Rightarrow> 'a world \<Rightarrow> (unit, 'a world) outcome" where
  "RawMemory_Deallocate buf = operator_delete buf"

definition RawMemory_ctor :: "'a env \<Rightarrow> nat \<Rightarrow> 'a world \<Rightarrow> (RawMemory, 'a world) outcome" where
  "RawMemory_ctor env capacity =
     bind (RawMemory_Allocate env capacity) (\<lambda>p. Return \<lparr>buffer_m = p, capacity_m = capacity\<rparr>)"

definition RawMemory_dtor :: "RawMemory \<Rightarrow> 'a world \<Rightarrow> (unit, 'a world) outcome" where
  "RawMemory_dtor m = RawMemory_Deallocate (buffer_m m)"

definition RawMemory_Swap :: "RawMemory \<Rightarrow> RawMemory \<Rightarrow> RawMemory \<times> RawMemory" where
  "RawMemory_Swap m other =
     (m\<lparr>buffer_m := buffer_m other, capacity_m := capacity_m other\<rparr>,
      other\<lparr>buffer_m := buffer_m m, capacity_m := capacity_m m\<rparr>)"

definition RawMemory_GetAddress :: "RawMemory \<Rightarrow> ptr" where
  "RawMemory_GetAddress m = buffer_m m"

definition RawMemory_Capacity :: "RawMemory \<Rightarrow> nat" where
  "RawMemory_Capacity m = capacity_m m"

text \<open>\<^verbatim>\<open>operator+\<close> and \<^verbatim>\<open>operator[]\<close> with their assertions; \<open>None\<close> is the failed assertion.\<close>

definition RawMemory_plus :: "RawMemory \<Rightarrow> nat \<Rightarrow> ptr option" where
  "RawMemory_plus m offset = (if offset \<le> capacity_m m then Some (ptr_add (buffer_m m) offset) else None)"

definition RawMemory_index :: "RawMemory \<Rightarrow> nat \<Rightarrow> ptr option" where
  "RawMemory_index m index = (if index < capacity_m m then Some (ptr_add (buffer_m m) index) else None)"

section \<open>Vector\<close>

record Vector =
  data_m :: RawMemory
  size_m :: nat

definition Vector_default :: Vector where
  "Vector_default = \<lparr>data_m = RawMemory_default, size_m = 0\<rparr>"

definition Vector_Size :: "Vector \<Rightarrow> nat" where
  "Vector_Size v = size_m v"

definition Vector_Capacity :: "Vector \<Rightarrow> nat" where
  "Vector_Capacity v = RawMemory_Capacity (data_m v)"

definition Vector_begin :: "Vector \<Rightarrow> ptr" where
  "Vector_begin v = RawMemory_GetAddress (data_m v)"

definition Vector_end :: "Vector \<Rightarrow> ptr" where
  "Vector_end v = ptr_add (RawMemory_GetAddress (data_m v)) (size_m v)"

text \<open>
  The constructors. A member already built (\<^verbatim>\<open>data_\<close>) is destroyed when the body of
  the constructor throws.
\<close>

definition Vector_sized :: "'a env \<Rightarrow> nat \<Rightarrow> 'a world \<Rightarrow> (Vector, 'a world) outcome" where
  "Vector_sized env n =
     bind (RawMemory_ctor env n) (\<lambda>d.
       catch_rethrow catch_all (RawMemory_dtor d)
         (bind (uninitialized_value_construct_n env (RawMemory_GetAddress d) n)
            (\<lambda>_. Return \<lparr>data_m = d, size_m = n\<rparr>)))"

definition Vector_copy :: "'a env \<Rightarrow> Vector \<Rightarrow> 'a world \<Rightarrow> (Vector, 'a world) outcome" where
  "Vector_copy env other =
     bind (RawMemory_ctor env (size_m other)) (\<lambda>d.
       catch_rethrow catch_all (RawMemory_dtor d)
         (bind (uninitialized_copy_n env (RawMemory_GetAddress (data_m other)) (size_m other) (RawMemory_GetAddress d))
            (\<lambda>_. Return \<lparr>data_m = d, size_m = size_m other\<rparr>)))"

text \<open>The move constructor gives the new object and what is left of the source.\<close>

definition Vector_move :: "Vector \<Rightarrow> Vector \<times> Vector" where
  "Vector_move other =
     (\<lparr>data_m = \<lparr>buffer_m = buffer_m (data_m other), capacity_m = capacity_m (data_m other)\<rparr>,
       size_m = size_m other\<rparr>,
      other\<lparr>data_m := (data_m other)\<lparr>buffer_m := nullptr, capacity_m := 0\<rparr>, size_m := 0\<rparr>)"

definition Vector_dtor :: "Vector \<Rightarrow> 'a world \<Rightarrow> (unit, 'a world) outcome" where
  "Vector_dtor v =
     bind (destroy_n (RawMemory_GetAddress (data_m v)) (size_m v)) (\<lambda>_. RawMemory_dtor (data_m v))"

definition Vector_Swap :: "Vector \<Rightarrow> Vector \<Rightarrow> Vector \<times> Vector" where
  "Vector_Swap v other =
     (case RawMemory_Swap (data_m v) (data_m other) of
        (d, od) \<Rightarrow> (v\<lparr>data_m := d, size_m := size_m other\<rparr>, other\<lparr>data_m := od, size_m := size_m v\<rparr>))"

text \<open>
  A member function works on the object and the world. \<open>with_this v\<close> puts the object,
  whose members the call has not written, beside the world of an outcome.
\<close>

definition with_this :: "Vector \<Rightarrow> ('r, 'a world) outcome \<Rightarrow> ('r, Vector \<times> 'a world) outcome" where
  "with_this v out =
     (case out of Return r w \<Rightarrow> Return r (v, w) | Throw e w \<Rightarrow> Throw e (v, w) | Fault \<Rightarrow> Fault)"

text \<open>
  The \<^verbatim>\<open>if constexpr\<close> of \<^verbatim>\<open>Reserve\<close> and \<^verbatim>\<open>Emplace\<close>: move when the move constructor
  is \<^verbatim>\<open>noexcept\<close> or there is no copy constructor, copy otherwise.
\<close>

definition relocate_n :: "'a env \<Rightarrow> ptr \<Rightarrow> nat \<Rightarrow> ptr \<Rightarrow> 'a world \<Rightarrow> (unit, 'a world) outcome" where
  "relocate_n env first n d_first =
     (if nothrow_move_constructible env \<or> \<not> copy_constructible env
      then uninitialized_move_n env first n d_first
      else uninitialized_copy_n env first n d_first)"

definition Vector_Reserve :: "'a env \<Rightarrow> nat \<Rightarrow> Vector \<times> 'a world \<Rightarrow> (unit, Vector \<times> 'a world) outcome" where
  "Vector_Reserve env new_capacity = (\<lambda>(v, w).
     if new_capacity \<le> RawMemory_Capacity (data_m v) then Return () (v, w)
     else
       (case bind (RawMemory_ctor env new_capacity) (\<lambda>new_data.
               catch_rethrow catch_all (RawMemory_dtor new_data)
                 (bind (relocate_n env (RawMemory_GetAddress (data_m v)) (size_m v) (RawMemory_GetAddress new_data)) (\<lambda>_.
                  bind (destroy_n (RawMemory_GetAddress (data_m v)) (size_m v)) (\<lambda>_.
                  (case RawMemory_Swap (data_m v) new_data of
                     (d, nd) \<Rightarrow> bind (RawMemory_dtor nd) (\<lambda>_. Return d)))))) w of
          Return d w' \<Rightarrow> Return () (v\<lparr>data_m := d\<rparr>, w')
        | Throw e w' \<Rightarrow> Throw e (v, w')
        | Fault \<Rightarrow> Fault))"

definition Vector_Resize :: "'a env \<Rightarrow> nat \<Rightarrow> Vector \<times> 'a world \<Rightarrow> (unit, Vector \<times> 'a world) outcome" where
  "Vector_Resize env new_size = (\<lambda>(v, w).
     if new_size \<le> size_m v
     then
       (case destroy_n (ptr_add (RawMemory_GetAddress (data_m v)) new_size) (size_m v - new_size) w of
          Return _ w' \<Rightarrow> Return () (v\<lparr>size_m := new_size\<rparr>, w')
        | Throw e w' \<Rightarrow> Throw e (v, w')
        | Fault \<Rightarrow> Fault)
     else
       (case Vector_Reserve env new_size (v, w) of
          Return _ (v1, w1) \<Rightarrow>
            (case uninitialized_default_construct_n env
                    (ptr_add (RawMemory_GetAddress (data_m v1)) (size_m v1)) (new_size - size_m v1) w1 of
               Return _ w2 \<Rightarrow> Return () (v1\<lparr>size_m := new_size\<rparr>, w2)
             | Throw e w2 \<Rightarrow> Throw e (v1, w2)
             | Fault \<Rightarrow> Fault)
        | Throw e s \<Rightarrow> Throw e s
        | Fault \<Rightarrow> Fault))"

definition Vector_PopBack :: "Vector \<times> 'a world \<Rightarrow> (unit, Vector \<times> 'a world) outcome" where
  "Vector_PopBack = (\<lambda>(v, w).
     if \<not> 0 < size_m v then Fault
     else
       (case destroy_at (ptr_add (RawMemory_GetAddress (data_m v)) (size_m v - 1)) w of
          Return _ w' \<Rightarrow> Return () (v\<lparr>size_m := size_m v - 1\<rparr>, w')
        | Throw e w' \<Rightarrow> Throw e (v, w')
        | Fault \<Rightarrow> Fault))"

text \<open>\<^verbatim>\<open>operator[]\<close> gives a reference: the address of the element.\<close>

definition Vector_index :: "Vector \<Rightarrow> nat \<Rightarrow> ptr option" where
  "Vector_index v index =
     (if index < size_m v then Some (ptr_add (RawMemory_GetAddress (data_m v)) index) else None)"

subsection \<open>Emplace\<close>

text \<open>
  The branch \<^verbatim>\<open>size_ == Capacity()\<close>, up to the end of the block in which
  \<^verbatim>\<open>new_data\<close> lives; it gives the buffer \<^verbatim>\<open>data_\<close> holds after the swap.
\<close>

definition Emplace_grow :: "'a env \<Rightarrow> Vector \<Rightarrow> nat \<Rightarrow> 'a args \<Rightarrow> 'a world \<Rightarrow> (RawMemory, 'a world) outcome" where
  "Emplace_grow env v offset a =
     (let new_capacity = max 1 (size_t (Vector_Capacity v * 2)) in
      bind (RawMemory_ctor env new_capacity) (\<lambda>new_data.
        catch_rethrow catch_all (RawMemory_dtor new_data)
          (bind (construct_at env (ptr_add (RawMemory_GetAddress new_data) offset) a) (\<lambda>_.
           bind (catch_rethrow derives_std_exception
                   (destroy_at (ptr_add (RawMemory_GetAddress new_data) offset))
                   (bind (relocate_n env (Vector_begin v) offset (RawMemory_GetAddress new_data)) (\<lambda>_.
                      catch_rethrow derives_std_exception
                        (destroy_n (RawMemory_GetAddress new_data) (size_t (offset + 1)))
                        (relocate_n env (ptr_add (Vector_begin v) offset) (size_t_sub (size_m v) offset)
                           (ptr_add (ptr_add (RawMemory_GetAddress new_data) offset) 1))))) (\<lambda>_.
           bind (destroy_n (Vector_begin v) (size_m v)) (\<lambda>_.
           (case RawMemory_Swap (data_m v) new_data of
              (d, nd) \<Rightarrow> bind (RawMemory_dtor nd) (\<lambda>_. Return d))))))))"

text \<open>
  The branch with room left and \<^verbatim>\<open>pos != end()\<close>: the temporary, the guarded shift, the
  assignment of the temporary.
\<close>

definition Emplace_shift :: "'a env \<Rightarrow> Vector \<Rightarrow> nat \<Rightarrow> 'a args \<Rightarrow> 'a world \<Rightarrow> (unit, 'a world) outcome" where
  "Emplace_shift env v offset a =
     bind (construct_tmp env a) (\<lambda>tmp.
     bind (catch_rethrow catch_all (destroy_at (Vector_end v))
             (\<lambda>w. case RawMemory_index (data_m v) (size_t_sub (size_m v) 1) of
                     None \<Rightarrow> Fault
                   | Some back \<Rightarrow>
                       bind (move_construct env (Vector_end v) back) (\<lambda>_.
                         if size_m v - 1 < offset then (\<lambda>_. Fault)
                         else move_backward env (ptr_add (Vector_begin v) offset) (size_m v - 1 - offset)
                                (ptr_add (Vector_begin v) (offset + 1))) w)) (\<lambda>_ w.
     case RawMemory_index (data_m v) offset of
       None \<Rightarrow> Fault
     | Some p \<Rightarrow> move_assign_tmp env p tmp w))"

definition Vector_Emplace :: "'a env \<Rightarrow> ptr \<Rightarrow> 'a args \<Rightarrow> Vector \<times> 'a world \<Rightarrow> (ptr, Vector \<times> 'a world) outcome" where
  "Vector_Emplace env pos a = (\<lambda>(v, w).
     case ptr_diff pos (Vector_begin v) of
       None \<Rightarrow> Fault
     | Some offset \<Rightarrow>
         if size_m v = Vector_Capacity v
         then
           (case Emplace_grow env v offset a w of
              Return d w' \<Rightarrow>
                (let v' = v\<lparr>data_m := d, size_m := size_t (size_m v + 1)\<rparr>
                 in Return (ptr_add (Vector_begin v') offset) (v', w'))
            | Throw e w' \<Rightarrow> Throw e (v, w')
            | Fault \<Rightarrow> Fault)
         else
           (case (if pos = Vector_end v
                  then (case RawMemory_plus (data_m v) offset of
                          None \<Rightarrow> Fault
                        | Some p \<Rightarrow> construct_at env p a w)
                  else Emplace_shift env v offset a w) of
              Return _ w' \<Rightarrow>
                (let v' = v\<lparr>size_m := size_t (size_m v + 1)\<rparr>
                 in Return (ptr_add (Vector_begin v') offset) (v', w'))
            | Throw e w' \<Rightarrow> Throw e (v, w')
            | Fault \<Rightarrow> Fault))"

text \<open>
  \<^verbatim>\<open>EmplaceBack\<close> dereferences the iterator \<^verbatim>\<open>Emplace\<close> returns; the reference is the
  same address. \<^verbatim>\<open>PushBack\<close> drops it.
\<close>

definition Vector_EmplaceBack :: "'a env \<Rightarrow> 'a args \<Rightarrow> Vector \<times> 'a world \<Rightarrow> (ptr, Vector \<times> 'a world) outcome" where
  "Vector_EmplaceBack env a = (\<lambda>(v, w). Vector_Emplace env (Vector_end v) a (v, w))"

definition Vector_PushBack :: "'a env \<Rightarrow> 'a args \<Rightarrow> Vector \<times> 'a world \<Rightarrow> (unit, Vector \<times> 'a world) outcome" where
  "Vector_PushBack env a = bind (Vector_EmplaceBack env a) (\<lambda>_. Return ())"

definition Vector_Insert :: "'a env \<Rightarrow> ptr \<Rightarrow> 'a args \<Rightarrow> Vector \<times> 'a world \<Rightarrow> (ptr, Vector \<times> 'a world) outcome" where
  "Vector_Insert env pos a = Vector_Emplace env pos a"

subsection \<open>Erase\<close>

definition ptr_le :: "ptr \<Rightarrow> ptr \<Rightarrow> bool" where
  "ptr_le p q = (blk p = blk q \<and> idx p \<le> idx q)"

definition ptr_less :: "ptr \<Rightarrow> ptr \<Rightarrow> bool" where
  "ptr_less p q = (blk p = blk q \<and> idx p < idx q)"

definition Vector_Erase :: "'a env \<Rightarrow> ptr \<Rightarrow> Vector \<times> 'a world \<Rightarrow> (ptr, Vector \<times> 'a world) outcome" where
  "Vector_Erase env pos = (\<lambda>(v, w).
     if \<not> (ptr_le (Vector_begin v) pos \<and> ptr_less pos (Vector_end v)) then Fault
     else
       (case ptr_diff pos (Vector_begin v) of
          None \<Rightarrow> Fault
        | Some offset \<Rightarrow>
            (case bind (std_move env (ptr_add (ptr_add (RawMemory_GetAddress (data_m v)) offset) 1)
                          (size_m v - (offset + 1)) (ptr_add (RawMemory_GetAddress (data_m v)) offset))
                    (\<lambda>_. destroy_at (ptr_add (RawMemory_GetAddress (data_m v)) (size_m v - 1))) w of
               Return _ w' \<Rightarrow>
                 Return (ptr_add (RawMemory_GetAddress (data_m v)) offset) (v\<lparr>size_m := size_m v - 1\<rparr>, w')
             | Throw e w' \<Rightarrow> Throw e (v, w')
             | Fault \<Rightarrow> Fault)))"

subsection \<open>Assignment\<close>

text \<open>
  The right-hand side of \<^verbatim>\<open>operator=(const Vector &rhs)\<close> is the object itself
  (\<^verbatim>\<open>this == &rhs\<close>) or another object.
\<close>

datatype rhs_ref = This | Other Vector

text \<open>The loop \<^verbatim>\<open>data_[i] = rhs.data_[i]\<close> for \<^verbatim>\<open>i < min_size\<close>.\<close>

fun assign_loop :: "'a env \<Rightarrow> RawMemory \<Rightarrow> RawMemory \<Rightarrow> nat \<Rightarrow> nat \<Rightarrow> 'a world \<Rightarrow> (unit, 'a world) outcome" where
  "assign_loop env d rd i 0 w = Return () w"
| "assign_loop env d rd i (Suc n) w =
     (case (RawMemory_index d i, RawMemory_index rd i) of
        (Some dst, Some src) \<Rightarrow>
          (case copy_assign env dst src w of
             Return _ w' \<Rightarrow> assign_loop env d rd (Suc i) n w'
           | Throw e w' \<Rightarrow> Throw e w'
           | Fault \<Rightarrow> Fault)
      | _ \<Rightarrow> Fault)"

definition Vector_copy_assign :: "'a env \<Rightarrow> rhs_ref \<Rightarrow> Vector \<times> 'a world \<Rightarrow> (unit, Vector \<times> 'a world) outcome" where
  "Vector_copy_assign env r = (\<lambda>(v, w).
     case r of
       This \<Rightarrow> Return () (v, w)
     | Other rhs \<Rightarrow>
         if RawMemory_Capacity (data_m v) < size_m rhs
         then
           (case Vector_copy env rhs w of
              Return tmp w1 \<Rightarrow>
                (case Vector_Swap tmp v of
                   (tmp', v') \<Rightarrow>
                     (case Vector_dtor tmp' w1 of
                        Return _ w2 \<Rightarrow> Return () (v', w2)
                      | Throw e w2 \<Rightarrow> Throw e (v', w2)
                      | Fault \<Rightarrow> Fault))
            | Throw e w1 \<Rightarrow> Throw e (v, w1)
            | Fault \<Rightarrow> Fault)
         else
           (let min_size = min (size_m v) (size_m rhs) in
            case bind (assign_loop env (data_m v) (data_m rhs) 0 min_size) (\<lambda>_.
                   if size_m v < size_m rhs
                   then uninitialized_copy_n env
                          (ptr_add (RawMemory_GetAddress (data_m rhs)) (size_m v))
                          (size_m rhs - size_m v)
                          (ptr_add (RawMemory_GetAddress (data_m v)) (size_m v))
                   else destroy_n (ptr_add (RawMemory_GetAddress (data_m v)) (size_m rhs))
                          (size_m v - size_m rhs)) w of
              Return _ w' \<Rightarrow> Return () (v\<lparr>size_m := size_m rhs\<rparr>, w')
            | Throw e w' \<Rightarrow> Throw e (v, w')
            | Fault \<Rightarrow> Fault))"

text \<open>
  \<^verbatim>\<open>operator=(Vector &&rhs)\<close> is \<^verbatim>\<open>Swap(rhs)\<close>; it gives the object and the right-hand
  side after the call.
\<close>

definition Vector_move_assign :: "Vector \<Rightarrow> Vector \<Rightarrow> Vector \<times> Vector" where
  "Vector_move_assign v rhs = Vector_Swap v rhs"

section \<open>Reading an array\<close>

text \<open>The live elements \<^verbatim>\<open>[begin(), end())\<close>, when every one of the slots holds an object.\<close>

fun objects :: "'a world \<Rightarrow> ptr \<Rightarrow> nat \<Rightarrow> 'a list option" where
  "objects w p 0 = Some []"
| "objects w p (Suc n) =
     (case obj_at w p of
        None \<Rightarrow> None
      | Some x \<Rightarrow> (case objects w (ptr_add p 1) n of None \<Rightarrow> None | Some xs \<Rightarrow> Some (x # xs)))"

definition elements :: "'a world \<Rightarrow> Vector \<Rightarrow> 'a list option" where
  "elements w v = objects w (Vector_begin v) (size_m v)"

section \<open>Invariant and example instances\<close>

fun is_Obj :: "'a slot \<Rightarrow> bool" where
  "is_Obj Raw = False"
| "is_Obj (Obj x) = True"

text \<open>
  \<open>represents env w v xs\<close>: the array \<open>v\<close> holds the sequence \<open>xs\<close> in the world \<open>w\<close>. Its
  buffer is a block of exactly \<^verbatim>\<open>Capacity()\<close> slots, the first \<^verbatim>\<open>Size()\<close> hold the
  elements and the rest is raw; an array of capacity 0 has the null buffer.
\<close>

definition represents :: "'a env \<Rightarrow> 'a world \<Rightarrow> Vector \<Rightarrow> 'a list \<Rightarrow> bool" where
  "represents env w v xs =
     (size_m v = length xs \<and> length xs \<le> capacity_m (data_m v) \<and>
      capacity_m (data_m v) * sizeof env \<le> PTRDIFF_MAX \<and>
      0 < sizeof env \<and> sizeof env \<le> SIZE_MAX \<and>
      (if capacity_m (data_m v) = 0 then buffer_m (data_m v) = nullptr
       else (case buffer_m (data_m v) of
               Ptr None i \<Rightarrow> False
             | Ptr (Some b) i \<Rightarrow>
                 i = 0 \<and>
                 block_at w b = Some (map Obj xs @ replicate (capacity_m (data_m v) - length xs) Raw))))"

text \<open>
  The invariant of the class: \<open>0 \<le> size \<le> capacity\<close>, slots \<open>[0, size)\<close> hold objects,
  slots \<open>[size, capacity)\<close> are raw.
\<close>

definition vector_inv :: "'a env \<Rightarrow> 'a world \<Rightarrow> Vector \<Rightarrow> bool" where
  "vector_inv env w v =
     (size_m v \<le> capacity_m (data_m v) \<and>
      capacity_m (data_m v) * sizeof env \<le> PTRDIFF_MAX \<and>
      0 < sizeof env \<and> sizeof env \<le> SIZE_MAX \<and>
      (if capacity_m (data_m v) = 0 then buffer_m (data_m v) = nullptr
       else (case buffer_m (data_m v) of
               Ptr None i \<Rightarrow> False
             | Ptr (Some b) i \<Rightarrow>
                 i = 0 \<and>
                 (case block_at w b of
                    None \<Rightarrow> False
                  | Some ss \<Rightarrow>
                      map is_Obj ss =
                        replicate (size_m v) True @ replicate (capacity_m (data_m v) - size_m v) False))))"

text \<open>
  Instances for concrete runs: elements are natural numbers, a moved-from element reads
  0, the allocator never refuses.
\<close>

definition never :: "nat \<Rightarrow> 'a elem_op \<Rightarrow> exn option" where
  "never k op = None"

definition throw_at :: "nat \<Rightarrow> exn \<Rightarrow> nat \<Rightarrow> 'a elem_op \<Rightarrow> exn option" where
  "throw_at n e k op = (if k = n then Some e else None)"

definition elem_type :: "nat \<Rightarrow> bool \<Rightarrow> bool \<Rightarrow> (nat \<Rightarrow> nat elem_op \<Rightarrow> exn option) \<Rightarrow> nat env" where
  "elem_type sz nothrow_move copyable th =
     \<lparr>sizeof = sz, nothrow_move_constructible = nothrow_move, copy_constructible = copyable,
      default_init = 0, value_init = 0, moved_from = (\<lambda>x. 0), throws = th,
      new_fails = (\<lambda>k n. False)\<rparr>"

definition mk_world :: "nat slot list option list \<Rightarrow> nat list \<Rightarrow> nat elem_op list \<Rightarrow> ptr list \<Rightarrow> nat world" where
  "mk_world h ns ops ds = \<lparr>heap = h, new_calls = ns, trace = ops, dtor_log = ds\<rparr>"

definition empty_world :: "nat world" where
  "empty_world = mk_world [] [] [] []"

text \<open>\<open>vec b c n\<close>: the array whose buffer is block \<open>b\<close>, of capacity \<open>c\<close> and size \<open>n\<close>.\<close>

definition vec :: "nat \<Rightarrow> nat \<Rightarrow> nat \<Rightarrow> Vector" where
  "vec b c n = \<lparr>data_m = \<lparr>buffer_m = Ptr (Some b) 0, capacity_m = c\<rparr>, size_m = n\<rparr>"

text \<open>The element operation a constructor call with the given arguments is recorded as.\<close>

fun ctor_op :: "'a args \<Rightarrow> 'a elem_op" where
  "ctor_op (ByCopy x) = CopyCtor x"
| "ctor_op (ByMove x) = MoveCtor x"
| "ctor_op (ByArgs x) = ArgsCtor x"

text \<open>How growth relocates the elements of this element type, and the operation recorded.\<close>

definition relocates_by_move :: "'a env \<Rightarrow> bool" where
  "relocates_by_move env = (nothrow_move_constructible env \<or> \<not> copy_constructible env)"

definition relocation_op :: "'a env \<Rightarrow> 'a \<Rightarrow> 'a elem_op" where
  "relocation_op env x = (if relocates_by_move env then MoveCtor x else CopyCtor x)"

text \<open>The free store after the buffer of \<open>v\<close> has been released.\<close>

definition released :: "Vector \<Rightarrow> 'b option list \<Rightarrow> 'b option list" where
  "released v h = (case blk (buffer_m (data_m v)) of None \<Rightarrow> h | Some b \<Rightarrow> h[b := None])"


text \<open>Two arrays own different storage: their buffers, where they have one, are different blocks.\<close>

definition separate :: "Vector \<Rightarrow> Vector \<Rightarrow> bool" where
  "separate a b =
     (capacity_m (data_m a) = 0 \<or> capacity_m (data_m b) = 0 \<or>
      blk (buffer_m (data_m a)) \<noteq> blk (buffer_m (data_m b)))"

text \<open>\<open>own v\<close> is the block of the buffer of \<open>v\<close>, if it has one.\<close>

definition own :: "Vector \<Rightarrow> nat set" where
  "own v = {b. blk (buffer_m (data_m v)) = Some b}"

text \<open>
  The calls that change the array they are made on. Positions are given as offsets from
  \<^verbatim>\<open>begin()\<close>; \<open>AssignAt i x\<close> is the statement \<^verbatim>\<open>v[i] = std::move(x)\<close>; \<open>AssignFrom r\<close>
  is \<^verbatim>\<open>v = rhs\<close>, \<open>MoveFrom rhs\<close> is \<^verbatim>\<open>v = std::move(rhs)\<close> and \<open>SwapWith other\<close> is
  \<^verbatim>\<open>v.Swap(other)\<close>. The state is the array the call is made on and the world; what a
  move assignment or a swap leaves in the other object is not part of it.
\<close>

datatype 'a call =
    Reserve nat
  | Resize nat
  | PopBack
  | Emplace nat "'a args"
  | EmplaceBack "'a args"
  | PushBack "'a args"
  | Insert nat "'a args"
  | Erase nat
  | AssignAt nat 'a
  | AssignFrom rhs_ref
  | MoveFrom Vector
  | SwapWith Vector

fun exec :: "'a env \<Rightarrow> 'a call \<Rightarrow> Vector \<times> 'a world \<Rightarrow> (unit, Vector \<times> 'a world) outcome" where
  "exec env (Reserve n) s = Vector_Reserve env n s"
| "exec env (Resize n) s = Vector_Resize env n s"
| "exec env PopBack s = Vector_PopBack s"
| "exec env (Emplace offset a) s =
     bind (Vector_Emplace env (ptr_add (Vector_begin (fst s)) offset) a) (\<lambda>_. Return ()) s"
| "exec env (EmplaceBack a) s = bind (Vector_EmplaceBack env a) (\<lambda>_. Return ()) s"
| "exec env (PushBack a) s = Vector_PushBack env a s"
| "exec env (Insert offset a) s =
     bind (Vector_Insert env (ptr_add (Vector_begin (fst s)) offset) a) (\<lambda>_. Return ()) s"
| "exec env (Erase offset) s =
     bind (Vector_Erase env (ptr_add (Vector_begin (fst s)) offset)) (\<lambda>_. Return ()) s"
| "exec env (AssignAt i x) s =
     (case Vector_index (fst s) i of
        None \<Rightarrow> Fault
      | Some p \<Rightarrow>
          (case move_assign_tmp env p x (snd s) of
             Return _ w' \<Rightarrow> Return () (fst s, w')
           | Throw e w' \<Rightarrow> Throw e (fst s, w')
           | Fault \<Rightarrow> Fault))"
| "exec env (AssignFrom r) s = Vector_copy_assign env r s"
| "exec env (MoveFrom rhs) s = Return () (fst (Vector_move_assign (fst s) rhs), snd s)"
| "exec env (SwapWith other) s = Return () (fst (Vector_Swap (fst s) other), snd s)"

text \<open>The buffer a call hands over to the array: that of the other operand of a move
  assignment or a swap.\<close>

fun operand :: "'a call \<Rightarrow> nat set" where
  "operand (MoveFrom rhs) = own rhs"
| "operand (SwapWith other) = own other"
| "operand c = {}"

text \<open>A sequence of calls on one array.\<close>

fun run_calls :: "'a env \<Rightarrow> 'a call list \<Rightarrow> Vector \<times> 'a world \<Rightarrow> (unit, Vector \<times> 'a world) outcome" where
  "run_calls env [] s = Return () s"
| "run_calls env (c # cs) s =
     (case exec env c s of
        Return _ s' \<Rightarrow> run_calls env cs s'
      | Throw e s' \<Rightarrow> Throw e s'
      | Fault \<Rightarrow> Fault)"

text \<open>
  The footprint of a computation. \<open>shape\<close> forgets the values of a block; \<open>frame V S w w'\<close>
  says that from \<open>w\<close> to \<open>w'\<close> no block has appeared or disappeared, the blocks in \<open>V\<close> are
  unchanged and the blocks in \<open>S\<close> still have objects in the same slots. \<open>kept V w w'\<close> is
  weaker: blocks may have been allocated, and the blocks in \<open>V\<close> are unchanged.
  \<open>ends out P\<close> holds when the state in which \<open>out\<close> ends, by return or by exception,
  satisfies \<open>P\<close>. \<open>keeps w w'\<close>: every slot of \<open>w\<close> is a slot of \<open>w'\<close>, and every slot that
  holds an object in \<open>w\<close> holds one in \<open>w'\<close>.
\<close>

definition shape :: "'a slot list option \<Rightarrow> bool list option" where
  "shape b = map_option (map is_Obj) b"

definition frame :: "nat set \<Rightarrow> nat set \<Rightarrow> 'a world \<Rightarrow> 'a world \<Rightarrow> bool" where
  "frame V S w w' =
     (length (heap w') = length (heap w) \<and>
      (\<forall>k<length (heap w).
         (k \<in> V \<longrightarrow> heap w' ! k = heap w ! k) \<and>
         (k \<in> S \<longrightarrow> shape (heap w' ! k) = shape (heap w ! k))))"

definition kept :: "nat set \<Rightarrow> 'a world \<Rightarrow> 'a world \<Rightarrow> bool" where
  "kept V w w' =
     (length (heap w) \<le> length (heap w') \<and>
      (\<forall>k<length (heap w). k \<in> V \<longrightarrow> heap w' ! k = heap w ! k))"

fun ends :: "('r, 's) outcome \<Rightarrow> ('s \<Rightarrow> bool) \<Rightarrow> bool" where
  "ends (Return r s) P = P s"
| "ends (Throw e s) P = P s"
| "ends Fault P = True"

definition outside :: "nat set \<Rightarrow> ptr \<Rightarrow> bool" where
  "outside A p = (case blk p of None \<Rightarrow> True | Some b \<Rightarrow> b \<notin> A)"

definition keeps :: "'a world \<Rightarrow> 'a world \<Rightarrow> bool" where
  "keeps w w' =
     (\<forall>p. (slot_at w p \<noteq> None \<longrightarrow> slot_at w' p \<noteq> None) \<and>
          (obj_at w p \<noteq> None \<longrightarrow> obj_at w' p \<noteq> None))"

text \<open>No operation of the element type throws.\<close>

definition no_throw :: "'a env \<Rightarrow> bool" where
  "no_throw env = (\<forall>k op. throws env k op = None)"

section \<open>Sequencing and handlers\<close>

lemma bind_Return_iff:
  "bind m f s = Return r s'' \<longleftrightarrow> (\<exists>x s'. m s = Return x s' \<and> f x s' = Return r s'')"
  by (auto simp: bind_def split: outcome.splits)

lemma bind_Throw_iff:
  "bind m f s = Throw e s'' \<longleftrightarrow>
     m s = Throw e s'' \<or> (\<exists>x s'. m s = Return x s' \<and> f x s' = Throw e s'')"
  by (auto simp: bind_def split: outcome.splits)

lemma bind_simps [simp]:
  "m s = Return x s' \<Longrightarrow> bind m f s = f x s'"
  "m s = Throw e s' \<Longrightarrow> bind m f s = Throw e s'"
  "m s = Fault \<Longrightarrow> bind m f s = Fault"
  by (simp_all add: bind_def)

lemma catch_rethrow_Return_iff:
  "catch_rethrow h c body s = Return r s' \<longleftrightarrow> body s = Return r s'"
  by (auto simp: catch_rethrow_def split: outcome.splits)

lemma catch_rethrow_simps [simp]:
  "body s = Return r s' \<Longrightarrow> catch_rethrow h c body s = Return r s'"
  "body s = Fault \<Longrightarrow> catch_rethrow h c body s = Fault"
  "body s = Throw e s' \<Longrightarrow> \<not> h e \<Longrightarrow> catch_rethrow h c body s = Throw e s'"
  "body s = Throw e s' \<Longrightarrow> h e \<Longrightarrow> c s' = Return u s'' \<Longrightarrow> catch_rethrow h c body s = Throw e s''"
  by (simp_all add: catch_rethrow_def)

section \<open>Pointers and slots\<close>

lemma ptr_add_Ptr [simp]: "ptr_add (Ptr b i) n = Ptr b (i + n)"
  by (simp add: ptr_add_def)

lemma blk_ptr_add [simp]: "blk (ptr_add p n) = blk p"
  by (simp add: ptr_add_def)

lemma idx_ptr_add [simp]: "idx (ptr_add p n) = idx p + n"
  by (simp add: ptr_add_def)

lemma heap_update_same [simp]:
  "heap w ! b = Some ss \<Longrightarrow> (heap w)[b := Some ss] = heap w"
  by (metis list_update_id)

lemma slot_at_Ptr:
  "b < length (heap w) \<Longrightarrow> heap w ! b = Some ss \<Longrightarrow>
   slot_at w (Ptr (Some b) i) = (if i < length ss then Some (ss ! i) else None)"
  by (simp add: slot_at_def block_at_def)

lemma put_slot_Ptr:
  "b < length (heap w) \<Longrightarrow> heap w ! b = Some ss \<Longrightarrow>
   put_slot (Ptr (Some b) i) s w = w\<lparr>heap := (heap w)[b := Some (ss[i := s])]\<rparr>"
  by (simp add: put_slot_def block_at_def)

lemma place_Ptr:
  "b < length (heap w) \<Longrightarrow> heap w ! b = Some ss \<Longrightarrow>
   place (Ptr (Some b) i) x w =
     (if i < length ss then Return () (w\<lparr>heap := (heap w)[b := Some (ss[i := Obj x])]\<rparr>) else Fault)"
  by (simp add: place_def slot_at_Ptr put_slot_Ptr)

lemma obj_at_Ptr:
  "b < length (heap w) \<Longrightarrow> heap w ! b = Some ss \<Longrightarrow> i < length ss \<Longrightarrow> ss ! i = Obj x \<Longrightarrow>
   obj_at w (Ptr (Some b) i) = Some x"
  by (simp add: obj_at_def slot_at_Ptr)

lemma obj_at_block:
  "b < length (heap w) \<Longrightarrow> heap w ! b = Some ss \<Longrightarrow>
   obj_at w (Ptr (Some b) i) = (if i < length ss then (case ss ! i of Raw \<Rightarrow> None | Obj x \<Rightarrow> Some x) else None)"
  by (simp add: obj_at_def slot_at_Ptr split: slot.splits)

lemma destroy_at_Ptr:
  "b < length (heap w) \<Longrightarrow> heap w ! b = Some ss \<Longrightarrow>
   destroy_at (Ptr (Some b) i) w =
     (if i < length ss \<and> is_Obj (ss ! i)
      then Return () (w\<lparr>heap := (heap w)[b := Some (ss[i := Raw])], dtor_log := dtor_log w @ [Ptr (Some b) i]\<rparr>)
      else Fault)"
  by (cases "ss ! i") (simp_all add: destroy_at_def obj_at_block put_slot_Ptr)

lemma call_op_Return:
  "call_op env op w = Return r w' \<Longrightarrow> w' = w\<lparr>trace := trace w @ [op]\<rparr>"
  by (auto simp: call_op_def split: option.splits)

lemma call_move_ctor_Return:
  "call_move_ctor env x w = Return r w' \<Longrightarrow> w' = w\<lparr>trace := trace w @ [MoveCtor x]\<rparr>"
  by (auto simp: call_move_ctor_def dest: call_op_Return split: if_splits)

section \<open>Single steps on a known block\<close>

lemma copy_construct_Return:
  assumes "sb < length (heap w)" "heap w ! sb = Some src" "i < length src" "src ! i = Obj x"
    and "db < length (heap w)" "heap w ! db = Some dst"
    and "copy_construct env (Ptr (Some db) j) (Ptr (Some sb) i) w = Return r w'"
  shows "j < length dst \<and> w' = w\<lparr>heap := (heap w)[db := Some (dst[j := Obj x])], trace := trace w @ [CopyCtor x]\<rparr>"
  using assms
  by (auto simp: copy_construct_def obj_at_Ptr bind_Return_iff place_Ptr dest!: call_op_Return split: if_splits)

lemma move_construct_Return:
  assumes "sb \<noteq> db" "sb < length (heap w)" "heap w ! sb = Some src" "i < length src" "src ! i = Obj x"
    and "db < length (heap w)" "heap w ! db = Some dst"
    and "move_construct env (Ptr (Some db) j) (Ptr (Some sb) i) w = Return r w'"
  shows "j < length dst \<and>
         w' = w\<lparr>heap := (heap w)[sb := Some (src[i := Obj (moved_from env x)]), db := Some (dst[j := Obj x])],
                trace := trace w @ [MoveCtor x]\<rparr>"
  using assms
  by (auto simp: move_construct_def obj_at_Ptr bind_Return_iff place_Ptr put_slot_Ptr list_update_swap
      dest!: call_move_ctor_Return split: if_splits)

lemma move_construct_same_Return:
  assumes "b < length (heap w)" "heap w ! b = Some ss" "i < length ss" "ss ! i = Obj x"
    and "move_construct env (Ptr (Some b) j) (Ptr (Some b) i) w = Return r w'"
  shows "j < length ss \<and>
         w' = w\<lparr>heap := (heap w)[b := Some (ss[j := Obj x, i := Obj (moved_from env x)])],
                trace := trace w @ [MoveCtor x]\<rparr>"
  using assms
  by (auto simp: move_construct_def obj_at_Ptr bind_Return_iff place_Ptr put_slot_Ptr
      dest!: call_move_ctor_Return split: if_splits)

lemma move_assign_same_Return:
  assumes "b < length (heap w)" "heap w ! b = Some ss" "i < length ss" "ss ! i = Obj x"
    and "j < length ss" "ss ! j = Obj y"
    and "move_assign env (Ptr (Some b) j) (Ptr (Some b) i) w = Return r w'"
  shows "w' = w\<lparr>heap := (heap w)[b := Some (ss[i := Obj (moved_from env x), j := Obj x])],
                trace := trace w @ [MoveAssign y x]\<rparr>"
  using assms
  by (auto simp: move_assign_def obj_at_Ptr bind_Return_iff put_slot_Ptr
      dest!: call_op_Return split: if_splits)

lemma copy_assign_Return:
  assumes "sb < length (heap w)" "heap w ! sb = Some src" "i < length src" "src ! i = Obj x"
    and "db < length (heap w)" "heap w ! db = Some dst" "j < length dst" "dst ! j = Obj y"
    and "copy_assign env (Ptr (Some db) j) (Ptr (Some sb) i) w = Return r w'"
  shows "w' = w\<lparr>heap := (heap w)[db := Some (dst[j := Obj x])], trace := trace w @ [CopyAssign y x]\<rparr>"
  using assms
  by (auto simp: copy_assign_def obj_at_Ptr bind_Return_iff place_Ptr dest!: call_op_Return split: if_splits)

lemma move_assign_tmp_Return:
  assumes "b < length (heap w)" "heap w ! b = Some ss" "j < length ss" "ss ! j = Obj y"
    and "move_assign_tmp env (Ptr (Some b) j) x w = Return r w'"
  shows "w' = w\<lparr>heap := (heap w)[b := Some (ss[j := Obj x])], trace := trace w @ [MoveAssign y x]\<rparr>"
  using assms
  by (auto simp: move_assign_tmp_def obj_at_Ptr bind_Return_iff place_Ptr dest!: call_op_Return split: if_splits)

lemma call_ctor_Return:
  "call_ctor env a w = Return r w' \<Longrightarrow> w' = w\<lparr>trace := trace w @ [ctor_op a]\<rparr>"
  by (cases a) (auto dest: call_op_Return call_move_ctor_Return)

lemma construct_at_Return:
  assumes "b < length (heap w)" "heap w ! b = Some ss"
    and "construct_at env (Ptr (Some b) j) a w = Return r w'"
  shows "j < length ss \<and> w' = w\<lparr>heap := (heap w)[b := Some (ss[j := Obj (arg_value a)])], trace := trace w @ [ctor_op a]\<rparr>"
  using assms
  by (auto simp: construct_at_def bind_Return_iff place_Ptr dest!: call_ctor_Return split: if_splits)

lemma construct_tmp_Return:
  "construct_tmp env a w = Return x w' \<Longrightarrow> x = arg_value a \<and> w' = w\<lparr>trace := trace w @ [ctor_op a]\<rparr>"
  by (auto simp: construct_tmp_def bind_Return_iff dest!: call_ctor_Return)

lemma default_construct_Return:
  assumes "b < length (heap w)" "heap w ! b = Some ss"
    and "default_construct env (Ptr (Some b) j) w = Return r w'"
  shows "j < length ss \<and> w' = w\<lparr>heap := (heap w)[b := Some (ss[j := Obj (default_init env)])], trace := trace w @ [DefaultCtor]\<rparr>"
  using assms
  by (auto simp: default_construct_def bind_Return_iff place_Ptr dest!: call_op_Return split: if_splits)

text \<open>destroy\<close>

lemma destroy_loop_Ptr:
  assumes "b < length (heap w)" "heap w ! b = Some ss" "i + k + n \<le> length ss"
    and "\<forall>j<n. is_Obj (ss ! (i + k + j))"
  shows "destroy_loop (Ptr (Some b) i) k n w =
     Return () (w\<lparr>heap := (heap w)[b := Some (take (i + k) ss @ replicate n Raw @ drop (i + k + n) ss)],
                  dtor_log := dtor_log w @ map (\<lambda>j. Ptr (Some b) (i + k + j)) [0..<n]\<rparr>)"
  using assms
proof (induction n arbitrary: k w ss)
  case 0
  then show ?case by simp
next
  case (Suc n)
  let ?w1 = "w\<lparr>heap := (heap w)[b := Some (ss[i + k := Raw])], dtor_log := dtor_log w @ [Ptr (Some b) (i + k)]\<rparr>"
  have m: "map (\<lambda>j. Ptr (Some b) (i + k + j)) [0..<Suc n] =
           Ptr (Some b) (i + k) # map (\<lambda>j. Ptr (Some b) (i + Suc k + j)) [0..<n]"
    by (simp add: upt_rec[of 0 "Suc n"] map_Suc_upt[symmetric] del: upt_Suc)
  have o: "is_Obj (ss ! (i + k))" using Suc.prems(4) by (metis add.right_neutral zero_less_Suc)
  have d: "destroy_at (Ptr (Some b) (i + k)) w = Return () ?w1"
    using Suc.prems o by (simp add: destroy_at_Ptr)
  have rest: "\<forall>j<n. is_Obj ((ss[i + k := Raw]) ! (i + Suc k + j))"
  proof (intro allI impI)
    fix j assume "j < n"
    then have "is_Obj (ss ! (i + k + Suc j))" using Suc.prems(4) by (metis Suc_less_eq)
    then show "is_Obj ((ss[i + k := Raw]) ! (i + Suc k + j))" by simp
  qed
  have ih: "destroy_loop (Ptr (Some b) i) (Suc k) n ?w1 =
     Return () (?w1\<lparr>heap := (heap ?w1)[b := Some (take (i + Suc k) (ss[i + k := Raw]) @ replicate n Raw @ drop (i + Suc k + n) (ss[i + k := Raw]))],
                  dtor_log := dtor_log ?w1 @ map (\<lambda>j. Ptr (Some b) (i + Suc k + j)) [0..<n]\<rparr>)"
    by (rule Suc.IH) (use Suc.prems rest in auto)
  have t: "take (Suc (i + k)) (ss[i + k := Raw]) = take (i + k) ss @ [Raw]"
    using Suc.prems by (simp add: take_Suc_conv_app_nth)
  show ?case
    using d ih by (simp add: m t del: upt_Suc)
qed

lemma destroy_n_Ptr:
  assumes "b < length (heap w)" "heap w ! b = Some ss" "i + n \<le> length ss"
    and "\<forall>j<n. is_Obj (ss ! (i + j))"
  shows "destroy_n (Ptr (Some b) i) n w =
     Return () (w\<lparr>heap := (heap w)[b := Some (take i ss @ replicate n Raw @ drop (i + n) ss)],
                  dtor_log := dtor_log w @ map (\<lambda>j. Ptr (Some b) (i + j)) [0..<n]\<rparr>)"
  using destroy_loop_Ptr[OF assms(1,2), of i 0 n] assms(3,4) by (simp add: destroy_n_def)

lemma destroy_loop_Return:
  assumes "b < length (heap w)" "heap w ! b = Some ss" "i + k + n \<le> length ss"
    and "destroy_loop (Ptr (Some b) i) k n w = Return u w'"
  shows "(\<forall>j<n. is_Obj (ss ! (i + k + j))) \<and>
     w' = w\<lparr>heap := (heap w)[b := Some (take (i + k) ss @ replicate n Raw @ drop (i + k + n) ss)],
                  dtor_log := dtor_log w @ map (\<lambda>j. Ptr (Some b) (i + k + j)) [0..<n]\<rparr>"
proof -
  have o: "\<forall>j<n. is_Obj (ss ! (i + k + j))"
    using assms
  proof (induction n arbitrary: k w ss)
    case 0
    then show ?case by simp
  next
    case (Suc n)
    let ?w1 = "w\<lparr>heap := (heap w)[b := Some (ss[i + k := Raw])], dtor_log := dtor_log w @ [Ptr (Some b) (i + k)]\<rparr>"
    from Suc.prems(4) have d: "i + k < length ss \<and> is_Obj (ss ! (i + k))"
      and l: "destroy_loop (Ptr (Some b) i) (Suc k) n ?w1 = Return u w'"
      using destroy_at_Ptr[OF Suc.prems(1,2), of "i + k"]
      by (auto split: if_splits outcome.splits)
    have "\<forall>j<n. is_Obj ((ss[i + k := Raw]) ! (i + Suc k + j))"
      by (rule Suc.IH[OF _ _ _ l]) (use Suc.prems in auto)
    then have r: "\<forall>j<n. is_Obj (ss ! (i + k + Suc j))" by simp
    show ?case
    proof (intro allI impI)
      fix j assume "j < Suc n"
      then show "is_Obj (ss ! (i + k + j))" using d r by (cases j) auto
    qed
  qed
  from destroy_loop_Ptr[OF assms(1,2,3) o] assms(4) show ?thesis using o by simp
qed

lemma destroy_n_Return:
  assumes "b < length (heap w)" "heap w ! b = Some ss" "i + n \<le> length ss"
    and "destroy_n (Ptr (Some b) i) n w = Return u w'"
  shows "w' = w\<lparr>heap := (heap w)[b := Some (take i ss @ replicate n Raw @ drop (i + n) ss)],
                  dtor_log := dtor_log w @ map (\<lambda>j. Ptr (Some b) (i + j)) [0..<n]\<rparr>"
    and "\<forall>j<n. is_Obj (ss ! (i + j))"
  using destroy_loop_Return[OF assms(1,2), of i 0 n u w'] assms(3,4) by (simp_all add: destroy_n_def)

lemma all_Obj_map:
  "i + n \<le> length xs \<Longrightarrow> \<forall>j<n. is_Obj ((map Obj xs @ rest) ! (i + j))"
  by (simp add: nth_append)

lemma destroy_n_0 [simp]: "destroy_n p 0 w = Return () w"
  by (simp add: destroy_n_def)

section \<open>The construction loops\<close>

lemma heap_update_twice:
  "sb \<noteq> db \<Longrightarrow> h[sb := a, db := c, sb := a', db := c'] = h[sb := a', db := c']"
proof -
  assume ne: "sb \<noteq> db"
  have "h[sb := a, db := c, sb := a'] = h[sb := a', db := c]"
    using ne by (metis list_update_overwrite list_update_swap)
  then show ?thesis by simp
qed

lemma nth_shift:
  assumes "\<forall>i<length (x # xs). src ! (s + k + i) = Obj ((x # xs) ! i)"
  shows "\<forall>i<length xs. src ! (s + Suc k + i) = Obj (xs ! i)"
proof (intro allI impI)
  fix i assume "i < length xs"
  then have "src ! (s + k + Suc i) = Obj ((x # xs) ! Suc i)" using assms by (metis Suc_less_eq length_Cons)
  then show "src ! (s + Suc k + i) = Obj (xs ! i)" by simp
qed

lemma uninit_copy_Return:
  assumes "sb \<noteq> db" "sb < length (heap w)" "db < length (heap w)"
    and "heap w ! sb = Some src" "heap w ! db = Some dst"
    and "s + k + length xs \<le> length src" "\<forall>i<length xs. src ! (s + k + i) = Obj (xs ! i)"
    and "uninitialized_loop (\<lambda>k. copy_construct env (ptr_add (Ptr (Some db) d) k) (ptr_add (Ptr (Some sb) s) k)) df k (length xs) w = Return () w'"
  shows "(xs \<noteq> [] \<longrightarrow> d + k + length xs \<le> length dst) \<and>
         w' = w\<lparr>heap := (heap w)[db := Some (take (d + k) dst @ map Obj xs @ drop (d + k + length xs) dst)],
                trace := trace w @ map CopyCtor xs\<rparr>"
  using assms
proof (induction xs arbitrary: k w dst)
  case Nil
  then show ?case by simp
next
  case (Cons x xs)
  from Cons.prems(6,7) have x: "s + k < length src" "src ! (s + k) = Obj x"
    by auto
  from Cons.prems(8) obtain w1 where
    c: "copy_construct env (Ptr (Some db) (d + k)) (Ptr (Some sb) (s + k)) w = Return () w1"
    and l: "uninitialized_loop (\<lambda>k. copy_construct env (ptr_add (Ptr (Some db) d) k) (ptr_add (Ptr (Some sb) s) k)) df (Suc k) (length xs) w1 = Return () w'"
    by (auto split: outcome.splits)
  from copy_construct_Return[OF Cons.prems(2) Cons.prems(4) x Cons.prems(3) Cons.prems(5) c]
  have dk: "d + k < length dst"
    and w1: "w1 = w\<lparr>heap := (heap w)[db := Some (dst[d + k := Obj x])], trace := trace w @ [CopyCtor x]\<rparr>"
    by auto
  note nth = nth_shift[OF Cons.prems(7)]
  have ih: "(xs \<noteq> [] \<longrightarrow> d + Suc k + length xs \<le> length (dst[d + k := Obj x])) \<and>
     w' = w1\<lparr>heap := (heap w1)[db := Some (take (d + Suc k) (dst[d + k := Obj x]) @ map Obj xs @ drop (d + Suc k + length xs) (dst[d + k := Obj x]))],
            trace := trace w1 @ map CopyCtor xs\<rparr>"
    apply (rule Cons.IH[OF Cons.prems(1)])
    using Cons.prems w1 nth l by auto
  then show ?case
    using dk w1 by (auto simp: take_Suc_conv_app_nth)
qed

lemma uninit_move_Return:
  assumes "sb \<noteq> db" "sb < length (heap w)" "db < length (heap w)"
    and "heap w ! sb = Some src" "heap w ! db = Some dst"
    and "s + k + length xs \<le> length src" "\<forall>i<length xs. src ! (s + k + i) = Obj (xs ! i)"
    and "uninitialized_loop (\<lambda>k. move_construct env (ptr_add (Ptr (Some db) d) k) (ptr_add (Ptr (Some sb) s) k)) df k (length xs) w = Return () w'"
  shows "(xs \<noteq> [] \<longrightarrow> d + k + length xs \<le> length dst) \<and>
         w' = w\<lparr>heap := (heap w)[sb := Some (take (s + k) src @ map (\<lambda>x. Obj (moved_from env x)) xs @ drop (s + k + length xs) src),
                                 db := Some (take (d + k) dst @ map Obj xs @ drop (d + k + length xs) dst)],
                trace := trace w @ map MoveCtor xs\<rparr>"
  using assms
proof (induction xs arbitrary: k w dst src)
  case Nil
  then show ?case by simp
next
  case (Cons x xs)
  from Cons.prems(6,7) have x: "s + k < length src" "src ! (s + k) = Obj x"
    by auto
  from Cons.prems(8) obtain w1 where
    c: "move_construct env (Ptr (Some db) (d + k)) (Ptr (Some sb) (s + k)) w = Return () w1"
    and l: "uninitialized_loop (\<lambda>k. move_construct env (ptr_add (Ptr (Some db) d) k) (ptr_add (Ptr (Some sb) s) k)) df (Suc k) (length xs) w1 = Return () w'"
    by (auto split: outcome.splits)
  let ?src1 = "src[s + k := Obj (moved_from env x)]"
  let ?dst1 = "dst[d + k := Obj x]"
  from move_construct_Return[OF Cons.prems(1) Cons.prems(2) Cons.prems(4) x Cons.prems(3) Cons.prems(5) c]
  have dk: "d + k < length dst"
    and w1: "w1 = w\<lparr>heap := (heap w)[sb := Some ?src1, db := Some ?dst1], trace := trace w @ [MoveCtor x]\<rparr>"
    by auto
  have nth: "\<forall>i<length xs. ?src1 ! (s + Suc k + i) = Obj (xs ! i)"
    using nth_shift[OF Cons.prems(7)] by simp
  have ih: "(xs \<noteq> [] \<longrightarrow> d + Suc k + length xs \<le> length ?dst1) \<and>
     w' = w1\<lparr>heap := (heap w1)[sb := Some (take (s + Suc k) ?src1 @ map (\<lambda>x. Obj (moved_from env x)) xs @ drop (s + Suc k + length xs) ?src1),
                                db := Some (take (d + Suc k) ?dst1 @ map Obj xs @ drop (d + Suc k + length xs) ?dst1)],
            trace := trace w1 @ map MoveCtor xs\<rparr>"
    apply (rule Cons.IH[OF Cons.prems(1)])
    using Cons.prems w1 nth l by auto
  then show ?case
    using dk x w1 Cons.prems(1) by (auto simp: take_Suc_conv_app_nth heap_update_twice)
qed

lemma uninit_default_Return:
  assumes "b < length (heap w)" "heap w ! b = Some ss"
    and "uninitialized_loop (\<lambda>k. default_construct env (ptr_add (Ptr (Some b) d) k)) df k n w = Return () w'"
  shows "(0 < n \<longrightarrow> d + k + n \<le> length ss) \<and>
         w' = w\<lparr>heap := (heap w)[b := Some (take (d + k) ss @ replicate n (Obj (default_init env)) @ drop (d + k + n) ss)],
                trace := trace w @ replicate n DefaultCtor\<rparr>"
  using assms
proof (induction n arbitrary: k w ss)
  case 0
  then show ?case by simp
next
  case (Suc n)
  from Suc.prems(3) obtain w1 where
    c: "default_construct env (Ptr (Some b) (d + k)) w = Return () w1"
    and l: "uninitialized_loop (\<lambda>k. default_construct env (ptr_add (Ptr (Some b) d) k)) df (Suc k) n w1 = Return () w'"
    by (auto split: outcome.splits)
  let ?ss1 = "ss[d + k := Obj (default_init env)]"
  from default_construct_Return[OF Suc.prems(1,2) c]
  have dk: "d + k < length ss"
    and w1: "w1 = w\<lparr>heap := (heap w)[b := Some ?ss1], trace := trace w @ [DefaultCtor]\<rparr>"
    by auto
  have ih: "(0 < n \<longrightarrow> d + Suc k + n \<le> length ?ss1) \<and>
     w' = w1\<lparr>heap := (heap w1)[b := Some (take (d + Suc k) ?ss1 @ replicate n (Obj (default_init env)) @ drop (d + Suc k + n) ?ss1)],
            trace := trace w1 @ replicate n DefaultCtor\<rparr>"
    apply (rule Suc.IH)
    using Suc.prems w1 l by auto
  then show ?case
    using dk w1 by (auto simp: take_Suc_conv_app_nth replicate_app_Cons_same)
qed

section \<open>Shifts, the assignment loop, reading a block\<close>

lemma move_loop_shift_Return:
  assumes "b < length (heap w)" "heap w ! b = Some (map Obj (pre @ y # zs) @ rest)" "length pre = off + k"
    and "move_loop env (Ptr (Some b) (Suc off)) (Ptr (Some b) off) k (length zs) w = Return () w'"
  shows "\<exists>t. w' = w\<lparr>heap := (heap w)[b := Some (map Obj (pre @ zs @ [last (y # map (moved_from env) zs)]) @ rest)],
                    trace := t\<rparr>"
  using assms
proof (induction zs arbitrary: pre y k w)
  case Nil
  then show ?case by (auto intro: exI[of _ "trace w"])
next
  case (Cons z zs)
  let ?ss = "map Obj (pre @ y # z # zs) @ rest"
  from Cons.prems(4) obtain w1 where
    c: "move_assign env (Ptr (Some b) (off + k)) (Ptr (Some b) (Suc (off + k))) w = Return () w1"
    and l: "move_loop env (Ptr (Some b) (Suc off)) (Ptr (Some b) off) (Suc k) (length zs) w1 = Return () w'"
    by (auto split: outcome.splits)
  have src: "Suc (off + k) < length ?ss" "?ss ! Suc (off + k) = Obj z"
    using Cons.prems(3) by (auto simp: nth_append)
  have dst: "off + k < length ?ss" "?ss ! (off + k) = Obj y"
    using Cons.prems(3) by (auto simp: nth_append)
  from move_assign_same_Return[OF Cons.prems(1) Cons.prems(2) src dst c]
  have w1: "w1 = w\<lparr>heap := (heap w)[b := Some (?ss[Suc (off + k) := Obj (moved_from env z), off + k := Obj z])],
                   trace := trace w @ [MoveAssign y z]\<rparr>" .
  have upd: "?ss[Suc (off + k) := Obj (moved_from env z), off + k := Obj z] =
             map Obj ((pre @ [z]) @ moved_from env z # zs) @ rest"
    using Cons.prems(3) by (simp add: list_update_append)
  have "\<exists>t. w' = w1\<lparr>heap := (heap w1)[b := Some (map Obj ((pre @ [z]) @ zs @ [last (moved_from env z # map (moved_from env) zs)]) @ rest)],
                    trace := t\<rparr>"
    apply (rule Cons.IH[where k = "Suc k"])
    using Cons.prems w1 upd l by auto
  then show ?case
    using w1 by auto
qed

lemma move_backward_shift_Return:
  assumes "b < length (heap w)" "heap w ! b = Some (map Obj (pre @ zs @ [y]) @ rest)" "length pre = off"
    and "move_backward env (Ptr (Some b) off) (length zs) (Ptr (Some b) (Suc off)) w = Return () w'"
  shows "\<exists>t. w' = w\<lparr>heap := (heap w)[b := Some (map Obj (pre @ hd (map (moved_from env) zs @ [y]) # zs) @ rest)],
                    trace := t\<rparr>"
  using assms
proof (induction zs arbitrary: y rest w rule: rev_induct)
  case Nil
  then show ?case by (auto intro: exI[of _ "trace w"])
next
  case (snoc z zs)
  let ?ss = "map Obj (pre @ (zs @ [z]) @ [y]) @ rest"
  from snoc.prems(4) obtain w1 where
    c: "move_assign env (Ptr (Some b) (Suc (off + length zs))) (Ptr (Some b) (off + length zs)) w = Return () w1"
    and l: "move_backward env (Ptr (Some b) off) (length zs) (Ptr (Some b) (Suc off)) w1 = Return () w'"
    by (auto split: outcome.splits)
  have src: "off + length zs < length ?ss" "?ss ! (off + length zs) = Obj z"
    using snoc.prems(3) by (auto simp: nth_append)
  have dst: "Suc (off + length zs) < length ?ss" "?ss ! Suc (off + length zs) = Obj y"
    using snoc.prems(3) by (auto simp: nth_append)
  from move_assign_same_Return[OF snoc.prems(1) snoc.prems(2) src dst c]
  have w1: "w1 = w\<lparr>heap := (heap w)[b := Some (?ss[off + length zs := Obj (moved_from env z), Suc (off + length zs) := Obj z])],
                   trace := trace w @ [MoveAssign y z]\<rparr>" .
  have upd: "?ss[off + length zs := Obj (moved_from env z), Suc (off + length zs) := Obj z] =
             map Obj (pre @ zs @ [moved_from env z]) @ (Obj z # rest)"
    using snoc.prems(3) by (simp add: list_update_append)
  have "\<exists>t. w' = w1\<lparr>heap := (heap w1)[b := Some (map Obj (pre @ hd (map (moved_from env) zs @ [moved_from env z]) # zs) @ (Obj z # rest))],
                    trace := t\<rparr>"
    apply (rule snoc.IH)
    using snoc.prems w1 upd l by auto
  then show ?case
    using w1 by (auto simp: hd_append)
qed

lemma assign_loop_Return:
  assumes "sb \<noteq> db" "sb < length (heap w)" "db < length (heap w)"
    and "heap w ! sb = Some src" "heap w ! db = Some dst"
    and "k + length zs \<le> length src" "\<forall>i<length zs. src ! (k + i) = Obj (zs ! i)"
    and "k + length zs \<le> length dst" "\<forall>i<length zs. is_Obj (dst ! (k + i))"
    and "assign_loop env \<lparr>buffer_m = Ptr (Some db) 0, capacity_m = c\<rparr> \<lparr>buffer_m = Ptr (Some sb) 0, capacity_m = rc\<rparr> k (length zs) w = Return () w'"
  shows "\<exists>t. w' = w\<lparr>heap := (heap w)[db := Some (take k dst @ map Obj zs @ drop (k + length zs) dst)], trace := t\<rparr>"
  using assms
proof (induction zs arbitrary: k w dst)
  case Nil
  then show ?case by (auto intro: exI[of _ "trace w"])
next
  case (Cons z zs)
  from Cons.prems(6,7) have x: "k < length src" "src ! k = Obj z"
    by auto
  from Cons.prems(8,9) obtain y where y: "k < length dst" "dst ! k = Obj y"
    by (cases "dst ! k") auto
  from Cons.prems(10) obtain w1 where
    c: "copy_assign env (Ptr (Some db) k) (Ptr (Some sb) k) w = Return () w1"
    and l: "assign_loop env \<lparr>buffer_m = Ptr (Some db) 0, capacity_m = c\<rparr> \<lparr>buffer_m = Ptr (Some sb) 0, capacity_m = rc\<rparr> (Suc k) (length zs) w1 = Return () w'"
    by (auto simp: RawMemory_index_def split: outcome.splits if_splits)
  from copy_assign_Return[OF Cons.prems(2) Cons.prems(4) x Cons.prems(3) Cons.prems(5) y c]
  have w1: "w1 = w\<lparr>heap := (heap w)[db := Some (dst[k := Obj z])], trace := trace w @ [CopyAssign y z]\<rparr>" .
  have nth: "\<forall>i<length zs. src ! (Suc k + i) = Obj (zs ! i)"
    using nth_shift[of z zs src 0 k] Cons.prems(7) by simp
  have nth2: "\<forall>i<length zs. is_Obj (dst[k := Obj z] ! (Suc k + i))"
    using Cons.prems(9) by (metis Suc_less_eq add_Suc_right add_Suc_shift length_Cons n_not_Suc_n nth_list_update_neq le_add1 not_less_eq_eq)
  have "\<exists>t. w' = w1\<lparr>heap := (heap w1)[db := Some (take (Suc k) (dst[k := Obj z]) @ map Obj zs @ drop (Suc k + length zs) (dst[k := Obj z]))], trace := t\<rparr>"
    apply (rule Cons.IH[OF Cons.prems(1)])
    using Cons.prems w1 nth nth2 l by auto
  then show ?case
    using y w1 by (auto simp: take_Suc_conv_app_nth)
qed

lemma objects_block:
  assumes "b < length (heap w)" "heap w ! b = Some ss" "i + length xs \<le> length ss"
    and "\<forall>j<length xs. ss ! (i + j) = Obj (xs ! j)"
  shows "objects w (Ptr (Some b) i) (length xs) = Some xs"
  using assms
proof (induction xs arbitrary: i)
  case Nil
  then show ?case by simp
next
  case (Cons x xs)
  have x: "obj_at w (Ptr (Some b) i) = Some x"
    using Cons.prems by (intro obj_at_Ptr) auto
  have "objects w (Ptr (Some b) (Suc i)) (length xs) = Some xs"
    apply (rule Cons.IH)
    using Cons.prems nth_shift[of x xs ss i 0] by auto
  then show ?case using x by simp
qed

section \<open>Allocation, relocation, the invariant\<close>

lemma size_t_id: "n < 2 ^ 64 \<Longrightarrow> size_t n = n"
  by (simp add: size_t_def)

lemma size_t_sub_id:
  assumes "b \<le> a" "a < 2 ^ 64"
  shows "size_t_sub a b = a - b"
proof -
  have 1: "b mod 2 ^ 64 = b" using assms by (intro mod_less) linarith
  have 2: "a + 2 ^ 64 - b = 2 ^ 64 + (a - b)" using assms by linarith
  have "size_t_sub a b = (2 ^ 64 + (a - b)) mod 2 ^ 64"
    unfolding size_t_sub_def 1 2 ..
  also have "\<dots> = (a - b) mod 2 ^ 64" by (rule mod_add_self1)
  also have "\<dots> = a - b" using assms by (intro mod_less) linarith
  finally show ?thesis .
qed

lemma RawMemory_ctor_Return:
  assumes "RawMemory_ctor env n w = Return m w'" "n \<noteq> 0"
  shows "m = \<lparr>buffer_m = Ptr (Some (length (heap w))) 0, capacity_m = n\<rparr>"
    and "w' = w\<lparr>heap := heap w @ [Some (replicate (size_t (n * sizeof env) div sizeof env) Raw)],
                 new_calls := new_calls w @ [size_t (n * sizeof env)]\<rparr>"
    and "size_t (n * sizeof env) \<le> PTRDIFF_MAX"
  using assms
  by (auto simp: RawMemory_ctor_def RawMemory_Allocate_def operator_new_def allocation_fails_def
      bind_Return_iff split: if_splits)

lemma relocate_n_Return:
  assumes "sb \<noteq> db" "sb < length (heap w)" "db < length (heap w)"
    and "heap w ! sb = Some src" "heap w ! db = Some dst"
    and "s + length xs \<le> length src" "\<forall>i<length xs. src ! (s + i) = Obj (xs ! i)"
    and "relocate_n env (Ptr (Some sb) s) (length xs) (Ptr (Some db) d) w = Return () w'"
  shows "xs \<noteq> [] \<longrightarrow> d + length xs \<le> length dst"
    and "\<exists>src'. length src' = length src \<and> (\<forall>i<length src. i < s \<or> s + length xs \<le> i \<longrightarrow> src' ! i = src ! i) \<and>
           heap w' = (heap w)[sb := Some src', db := Some (take d dst @ map Obj xs @ drop (d + length xs) dst)]"
    and "new_calls w' = new_calls w" and "dtor_log w' = dtor_log w"
    and "trace w' = trace w @ map (relocation_op env) xs"
proof -
  show "xs \<noteq> [] \<longrightarrow> d + length xs \<le> length dst"
    using uninit_copy_Return[OF assms(1-5), of s 0 xs env d "Ptr (Some db) d" w']
      uninit_move_Return[OF assms(1-5), of s 0 xs env d "Ptr (Some db) d" w'] assms(6-8)
    by (auto simp: relocate_n_def uninitialized_copy_n_def uninitialized_move_n_def split: if_splits)
  show "new_calls w' = new_calls w" "dtor_log w' = dtor_log w" "trace w' = trace w @ map (relocation_op env) xs"
    using uninit_copy_Return[OF assms(1-5), of s 0 xs env d "Ptr (Some db) d" w']
      uninit_move_Return[OF assms(1-5), of s 0 xs env d "Ptr (Some db) d" w'] assms(6-8)
    by (auto simp: relocate_n_def uninitialized_copy_n_def uninitialized_move_n_def
        relocation_op_def relocates_by_move_def split: if_splits)
  show "\<exists>src'. length src' = length src \<and> (\<forall>i<length src. i < s \<or> s + length xs \<le> i \<longrightarrow> src' ! i = src ! i) \<and>
           heap w' = (heap w)[sb := Some src', db := Some (take d dst @ map Obj xs @ drop (d + length xs) dst)]"
  proof (cases "relocates_by_move env")
    case True
    then have "heap w' = (heap w)[sb := Some (take s src @ map (\<lambda>x. Obj (moved_from env x)) xs @ drop (s + length xs) src),
                                 db := Some (take d dst @ map Obj xs @ drop (d + length xs) dst)]"
      using uninit_move_Return[OF assms(1-5), of s 0 xs env d "Ptr (Some db) d" w'] assms(6-8)
      by (auto simp: relocate_n_def uninitialized_move_n_def relocates_by_move_def split: if_splits)
    moreover have "length (take s src @ map (\<lambda>x. Obj (moved_from env x)) xs @ drop (s + length xs) src) = length src"
      using assms(6) by simp
    moreover have "\<forall>i<length src. i < s \<or> s + length xs \<le> i \<longrightarrow>
        (take s src @ map (\<lambda>x. Obj (moved_from env x)) xs @ drop (s + length xs) src) ! i = src ! i"
      using assms(6) by (auto simp: nth_append min_def)
    ultimately show ?thesis by blast
  next
    case False
    then have "heap w' = (heap w)[db := Some (take d dst @ map Obj xs @ drop (d + length xs) dst)]"
      using uninit_copy_Return[OF assms(1-5), of s 0 xs env d "Ptr (Some db) d" w'] assms(6-8)
      by (auto simp: relocate_n_def uninitialized_copy_n_def relocates_by_move_def split: if_splits)
    then have "heap w' = (heap w)[sb := Some src, db := Some (take d dst @ map Obj xs @ drop (d + length xs) dst)]"
      using assms(4) by simp
    then show ?thesis by blast
  qed
qed

lemma relocate_n_0 [simp]: "relocate_n env p 0 q w = Return () w"
  by (simp add: relocate_n_def uninitialized_copy_n_def uninitialized_move_n_def)

lemma represents_block:
  assumes "represents env w v xs" "capacity_m (data_m v) \<noteq> 0"
  obtains b where "buffer_m (data_m v) = Ptr (Some b) 0" "b < length (heap w)"
    "heap w ! b = Some (map Obj xs @ replicate (capacity_m (data_m v) - length xs) Raw)"
  using assms
  by (auto simp: represents_def block_at_def split: ptr.splits option.splits if_splits)

lemma represents_bounds:
  assumes "represents env w v xs"
  shows "size_m v = length xs" "length xs \<le> capacity_m (data_m v)"
    "capacity_m (data_m v) * sizeof env \<le> PTRDIFF_MAX" "0 < sizeof env"
    "capacity_m (data_m v) \<le> PTRDIFF_MAX" "capacity_m (data_m v) = 0 \<Longrightarrow> buffer_m (data_m v) = nullptr"
    "sizeof env \<le> SIZE_MAX"
proof -
  show a: "size_m v = length xs" "length xs \<le> capacity_m (data_m v)"
    "capacity_m (data_m v) * sizeof env \<le> PTRDIFF_MAX" "0 < sizeof env"
    "capacity_m (data_m v) = 0 \<Longrightarrow> buffer_m (data_m v) = nullptr"
    using assms by (auto simp: represents_def split: if_splits)
  show "sizeof env \<le> SIZE_MAX"
    using assms by (auto simp: represents_def split: if_splits)
  have "capacity_m (data_m v) \<le> capacity_m (data_m v) * sizeof env"
    using a(4) by (cases "sizeof env") auto
  then show "capacity_m (data_m v) \<le> PTRDIFF_MAX" using a(3) by (rule le_trans)
qed

lemma grow_block:
  assumes "offset \<le> length xs" "Suc (length xs) \<le> c"
  shows "take (Suc offset) (map Obj (take offset xs) @ drop offset ((replicate c Raw)[offset := Obj x])) @
         map Obj (drop offset xs) @
         drop (Suc (length xs)) (map Obj (take offset xs) @ drop offset ((replicate c Raw)[offset := Obj x])) =
         map Obj (take offset xs @ x # drop offset xs) @ replicate (c - Suc (length xs)) Raw"
proof -
  have d: "drop offset ((replicate c Raw)[offset := Obj x]) = Obj x # replicate (c - Suc offset) Raw"
    using assms by (simp add: drop_update_swap[symmetric] Cons_nth_drop_Suc[symmetric] flip: drop_Suc)
  have l: "length (take offset xs) = offset" using assms by simp
  show ?thesis
    unfolding d using assms l by (simp add: min_def Suc_diff_le)
qed

section \<open>Emplace with reallocation\<close>

lemma upt_ptr_map:
  "map (\<lambda>j. Ptr (Some b) (0 + j)) [0..<n] = map (\<lambda>j. ptr_add (Ptr (Some b) 0) j) [0..<n]"
  by simp

lemma RawMemory_Swap_eq [simp]: "RawMemory_Swap m other = (other, m)"
  by (simp add: RawMemory_Swap_def)

lemma Vector_Swap_eq [simp]: "Vector_Swap v other = (other, v)"
  by (simp add: Vector_Swap_def)

lemma Emplace_grow_Return:
  assumes r: "represents env w v xs" and full: "size_m v = capacity_m (data_m v)"
    and off: "offset \<le> length xs"
    and run: "Emplace_grow env v offset a w = Return d w'"
  shows "d = \<lparr>buffer_m = Ptr (Some (length (heap w))) 0, capacity_m = max 1 (2 * capacity_m (data_m v))\<rparr>"
    and "max 1 (2 * capacity_m (data_m v)) * sizeof env \<le> PTRDIFF_MAX"
    and "heap w' = released v (heap w @
           [Some (map Obj (take offset xs @ arg_value a # drop offset xs) @
                  replicate (max 1 (2 * capacity_m (data_m v)) - Suc (length xs)) Raw)])"
    and "new_calls w' = new_calls w @ [max 1 (2 * capacity_m (data_m v)) * sizeof env]"
    and "dtor_log w' = dtor_log w @ map (\<lambda>j. ptr_add (Vector_begin v) j) [0..<length xs]"
    and "trace w' = trace w @ ctor_op a # map (relocation_op env) xs"
proof -
  define c where "c = capacity_m (data_m v)"
  define c' where "c' = max 1 (2 * c)"
  define nb where "nb = length (heap w)"
  define x where "x = arg_value a"
  note rb = represents_bounds[OF r]
  have n: "length xs = c" "size_m v = c" using rb full by (simp_all add: c_def)
  have c2: "size_t (Vector_Capacity v * 2) = 2 * c"
    using rb(5) by (simp add: size_t_def Vector_Capacity_def RawMemory_Capacity_def c_def PTRDIFF_MAX_def)
  have c'0: "c' \<noteq> 0" "Suc (length xs) \<le> c'" using n by (auto simp: c'_def)
  have bytes: "c' * sizeof env < 2 ^ 64"
  proof (cases "c = 0")
    case True
    then show ?thesis using rb(7) by (simp add: c'_def SIZE_MAX_def)
  next
    case False
    then have c2c: "c' = 2 * c" by (simp add: c'_def max_def)
    have le: "c * sizeof env \<le> 2 ^ 63 - 1" using rb(3) by (simp add: c_def PTRDIFF_MAX_def)
    have "c' * sizeof env = 2 * (c * sizeof env)" unfolding c2c by (rule mult.assoc)
    also have "\<dots> \<le> 2 * (2 ^ 63 - 1)" using le by (rule mult_le_mono2)
    also have "\<dots> < 2 ^ 64" by simp
    finally show ?thesis .
  qed
  then have st: "size_t (c' * sizeof env) = c' * sizeof env" by (rule size_t_id)
  have slots: "c' * sizeof env div sizeof env = c'" using rb(4) by simp
  from run obtain nd w1 w2 w3 w4 w5 where
    alloc: "RawMemory_ctor env c' w = Return nd w1"
    and ctor: "construct_at env (ptr_add (RawMemory_GetAddress nd) offset) a w1 = Return () w2"
    and pre: "relocate_n env (Vector_begin v) offset (RawMemory_GetAddress nd) w2 = Return () w3"
    and suf: "relocate_n env (ptr_add (Vector_begin v) offset) (size_t_sub (size_m v) offset)
                (ptr_add (ptr_add (RawMemory_GetAddress nd) offset) 1) w3 = Return () w4"
    and des: "destroy_n (Vector_begin v) (size_m v) w4 = Return () w5"
    and del: "RawMemory_dtor (data_m v) w5 = Return () w'"
    and d: "d = nd"
    unfolding Emplace_grow_def Let_def c2 c'_def[symmetric]
    by (auto simp: bind_Return_iff catch_rethrow_Return_iff)
  note a = RawMemory_ctor_Return[OF alloc c'0(1), unfolded st slots]
  have nd: "nd = \<lparr>buffer_m = Ptr (Some nb) 0, capacity_m = c'\<rparr>" using a(1) by (simp add: nb_def)
  have w1: "heap w1 = heap w @ [Some (replicate c' Raw)]" "new_calls w1 = new_calls w @ [c' * sizeof env]"
    "dtor_log w1 = dtor_log w" "trace w1 = trace w"
    using a(2) by simp_all
  show "d = \<lparr>buffer_m = Ptr (Some (length (heap w))) 0, capacity_m = max 1 (2 * capacity_m (data_m v))\<rparr>"
    using d nd by (simp add: nb_def c'_def c_def)
  show "max 1 (2 * capacity_m (data_m v)) * sizeof env \<le> PTRDIFF_MAX"
    using a(3) by (simp add: c'_def c_def)
  have nb1: "nb < length (heap w1)" "heap w1 ! nb = Some (replicate c' Raw)"
    using w1 by (simp_all add: nb_def)
  from construct_at_Return[OF nb1, of env offset a] ctor
  have w2: "heap w2 = (heap w1)[nb := Some ((replicate c' Raw)[offset := Obj x])]"
    "new_calls w2 = new_calls w1" "dtor_log w2 = dtor_log w1" "trace w2 = trace w1 @ [ctor_op a]"
    by (simp_all add: nd RawMemory_GetAddress_def x_def)
  have sub: "size_t_sub (size_m v) offset = length xs - offset"
    using off n rb(5) by (intro size_t_sub_id[THEN trans]) (simp_all add: c_def PTRDIFF_MAX_def)
  have goal: "heap w' = released v (heap w @ [Some (map Obj (take offset xs @ x # drop offset xs) @ replicate (c' - Suc (length xs)) Raw)]) \<and>
        new_calls w' = new_calls w @ [c' * sizeof env] \<and>
        dtor_log w' = dtor_log w @ map (\<lambda>j. ptr_add (Vector_begin v) j) [0..<length xs] \<and>
        trace w' = trace w @ ctor_op a # map (relocation_op env) xs"
  proof (cases "c = 0")
    case True
    then have e: "xs = []" "offset = 0" "size_m v = 0" "buffer_m (data_m v) = nullptr" "c' = 1"
      using n off rb(6) by (auto simp: c_def c'_def)
    have "w3 = w2" "w4 = w3" "w5 = w4" "w' = w5"
      using pre suf des del e sub
      by (simp_all add: Vector_begin_def RawMemory_GetAddress_def RawMemory_dtor_def
          RawMemory_Deallocate_def operator_delete_def nullptr_def)
    then show ?thesis
      using w1 w2 e by (simp add: released_def nullptr_def nb_def)
  next
    case False
    then have cpos: "capacity_m (data_m v) \<noteq> 0" by (simp add: c_def)
    from represents_block[OF r cpos] obtain b where
      b: "buffer_m (data_m v) = Ptr (Some b) 0" "b < length (heap w)"
        "heap w ! b = Some (map Obj xs @ replicate (capacity_m (data_m v) - length xs) Raw)"
      by blast
    then have blk: "heap w ! b = Some (map Obj xs)" using n by (simp add: c_def)
    have bn: "b \<noteq> nb" "b < length (heap w2)" "nb < length (heap w2)"
      using b(2) w1 w2 by (simp_all add: nb_def)
    have hb2: "heap w2 ! b = Some (map Obj xs)"
      using bn b(2) blk w1 w2 by (simp add: nth_append nb_def)
    have hn2: "heap w2 ! nb = Some ((replicate c' Raw)[offset := Obj x])"
      using w1 w2 by (simp add: nb_def)
    have beg: "Vector_begin v = Ptr (Some b) 0"
      using b(1) by (simp add: Vector_begin_def RawMemory_GetAddress_def)
    have pre': "relocate_n env (Ptr (Some b) 0) (length (take offset xs)) (Ptr (Some nb) 0) w2 = Return () w3"
      using pre off by (simp add: beg nd RawMemory_GetAddress_def min_def)
    have src1: "0 + length (take offset xs) \<le> length (map Obj xs)"
      "\<forall>i<length (take offset xs). map Obj xs ! (0 + i) = Obj (take offset xs ! i)"
      using off by simp_all
    from relocate_n_Return[OF bn(1) bn(2) bn(3) hb2 hn2 src1 pre']
    obtain src' where s1: "length src' = length xs"
        "\<forall>i<length (map Obj xs). i < 0 \<or> 0 + length (take offset xs) \<le> i \<longrightarrow> src' ! i = map Obj xs ! i"
        "heap w3 = (heap w2)[b := Some src',
           nb := Some (take 0 ((replicate c' Raw)[offset := Obj x]) @ map Obj (take offset xs) @
                       drop (0 + length (take offset xs)) ((replicate c' Raw)[offset := Obj x]))]"
      and l3: "new_calls w3 = new_calls w2" "dtor_log w3 = dtor_log w2"
        "trace w3 = trace w2 @ map (relocation_op env) (take offset xs)"
      by auto
    let ?B2 = "map Obj (take offset xs) @ drop offset ((replicate c' Raw)[offset := Obj x])"
    have h3: "heap w3 = (heap w2)[b := Some src', nb := Some ?B2]"
      using s1(3) off by (simp add: min_def)
    have bn3: "b < length (heap w3)" "nb < length (heap w3)" using bn h3 by simp_all
    have hb3: "heap w3 ! b = Some src'" using h3 bn by simp
    have hn3: "heap w3 ! nb = Some ?B2" using h3 bn by simp
    have suf': "relocate_n env (Ptr (Some b) offset) (length (drop offset xs)) (Ptr (Some nb) (Suc offset)) w3 = Return () w4"
      using suf sub by (simp add: beg nd RawMemory_GetAddress_def)
    have src2: "offset + length (drop offset xs) \<le> length src'"
      "\<forall>i<length (drop offset xs). src' ! (offset + i) = Obj (drop offset xs ! i)"
      using off s1(1,2) by (simp_all add: min_def)
    from relocate_n_Return[OF bn(1) bn3 hb3 hn3 src2 suf']
    obtain src'' where s2: "length src'' = length src'"
        "heap w4 = (heap w3)[b := Some src'',
           nb := Some (take (Suc offset) ?B2 @ map Obj (drop offset xs) @
                       drop (Suc offset + length (drop offset xs)) ?B2)]"
      and l4: "new_calls w4 = new_calls w3" "dtor_log w4 = dtor_log w3"
        "trace w4 = trace w3 @ map (relocation_op env) (drop offset xs)"
      by auto
    let ?B3 = "map Obj (take offset xs @ x # drop offset xs) @ replicate (c' - Suc (length xs)) Raw"
    have "Suc offset + length (drop offset xs) = Suc (length xs)" using off by simp
    then have h4: "heap w4 = (heap w3)[b := Some src'', nb := Some ?B3]"
      using s2(2) grow_block[OF off c'0(2), of x] by simp
    have bn4: "b < length (heap w4)" "heap w4 ! b = Some src''" using h4 bn bn3 by simp_all
    have des': "destroy_n (Ptr (Some b) 0) (length xs) w4 = Return () w5"
      using des n by (simp add: beg)
    have "0 + length xs \<le> length src''" using s1 s2 by simp
    from destroy_n_Return(1)[OF bn4 this des']
    have w5: "heap w5 = (heap w4)[b := Some (take 0 src'' @ replicate (length xs) Raw @ drop (0 + length xs) src'')]"
      "new_calls w5 = new_calls w4" "trace w5 = trace w4"
      "dtor_log w5 = dtor_log w4 @ map (\<lambda>j. Ptr (Some b) (0 + j)) [0..<length xs]"
      by auto
    have bn5: "b < length (heap w5)" "\<exists>ss. heap w5 ! b = Some ss" using w5(1) bn4 by simp_all
    have w': "heap w' = (heap w5)[b := None]" "new_calls w' = new_calls w5" "trace w' = trace w5"
      "dtor_log w' = dtor_log w5"
      using del bn5 b(1)
      by (auto simp: RawMemory_dtor_def RawMemory_Deallocate_def operator_delete_def block_at_def
          split: if_splits)
    have "heap w' = (heap w @ [Some ?B3])[b := None]"
      unfolding w'(1) w5(1) h4 h3 w2(1) w1(1) nb_def using b(2)
      by (auto simp: list_eq_iff_nth_eq nth_list_update nth_append)
    moreover have "trace w' = trace w @ ctor_op a # map (relocation_op env) xs"
      using w' w5 l4 l3 w2 w1 by (simp flip: map_append)
    ultimately show ?thesis
      using w' w5 l4 l3 w2 w1 b(1) by (simp add: released_def beg del: upt_Suc)
  qed
  then show "heap w' = released v (heap w @
           [Some (map Obj (take offset xs @ arg_value a # drop offset xs) @
                  replicate (max 1 (2 * capacity_m (data_m v)) - Suc (length xs)) Raw)])"
    and "new_calls w' = new_calls w @ [max 1 (2 * capacity_m (data_m v)) * sizeof env]"
    and "dtor_log w' = dtor_log w @ map (\<lambda>j. ptr_add (Vector_begin v) j) [0..<length xs]"
    and "trace w' = trace w @ ctor_op a # map (relocation_op env) xs"
    by (simp_all add: c'_def c_def x_def)
qed

section \<open>Emplace in place\<close>

lemma Emplace_shift_Return:
  assumes b: "b < length (heap w)"
    and blk: "heap w ! b = Some (map Obj (pre @ zs @ [l]) @ replicate (Suc m) Raw)"
    and v: "buffer_m (data_m v) = Ptr (Some b) 0" "size_m v = Suc (length pre + length zs)"
      "capacity_m (data_m v) = Suc (length pre + length zs) + Suc m" "capacity_m (data_m v) < 2 ^ 64"
    and run: "Emplace_shift env v (length pre) a w = Return () w'"
  shows "heap w' = (heap w)[b := Some (map Obj (pre @ arg_value a # zs @ [l]) @ replicate m Raw)]"
    and "new_calls w' = new_calls w" and "dtor_log w' = dtor_log w"
proof -
  let ?n = "Suc (length pre + length zs)"
  have sub: "size_t_sub (Suc (length pre + length zs)) (Suc 0) = length pre + length zs"
    using v by (subst size_t_sub_id) simp_all
  have idx: "RawMemory_index (data_m v) (length pre + length zs) = Some (Ptr (Some b) (length pre + length zs))"
    "RawMemory_index (data_m v) (length pre) = Some (Ptr (Some b) (length pre))"
    using v by (simp_all add: RawMemory_index_def)
  have pts: "Vector_end v = Ptr (Some b) ?n" "Vector_begin v = Ptr (Some b) 0"
    using v by (simp_all add: Vector_end_def Vector_begin_def RawMemory_GetAddress_def)
  from run obtain tmp w1 w2 w3 where
    tmp: "construct_tmp env a w = Return tmp w1"
    and mc: "move_construct env (Ptr (Some b) ?n) (Ptr (Some b) (length pre + length zs)) w1 = Return () w2"
    and mb: "move_backward env (Ptr (Some b) (length pre)) (length zs) (Ptr (Some b) (Suc (length pre))) w2 = Return () w3"
    and ma: "move_assign_tmp env (Ptr (Some b) (length pre)) tmp w3 = Return () w'"
    unfolding Emplace_shift_def
    by (auto simp: bind_Return_iff catch_rethrow_Return_iff sub idx pts v split: if_splits)
  let ?ss = "map Obj (pre @ zs @ [l]) @ replicate (Suc m) Raw"
  from construct_tmp_Return[OF tmp]
  have w1: "tmp = arg_value a" "heap w1 = heap w" "new_calls w1 = new_calls w" "dtor_log w1 = dtor_log w"
    by simp_all
  have b1: "b < length (heap w1)" "heap w1 ! b = Some ?ss" using b blk w1 by simp_all
  have src: "length pre + length zs < length ?ss" "?ss ! (length pre + length zs) = Obj l"
    by (simp_all add: nth_append)
  from move_construct_same_Return[OF b1 src mc]
  have w2: "heap w2 = (heap w1)[b := Some (?ss[?n := Obj l, length pre + length zs := Obj (moved_from env l)])]"
    "new_calls w2 = new_calls w1" "dtor_log w2 = dtor_log w1"
    by simp_all
  have upd: "?ss[?n := Obj l, length pre + length zs := Obj (moved_from env l)] =
        map Obj (pre @ zs @ [moved_from env l]) @ (Obj l # replicate m Raw)"
    by (simp add: list_update_append)
  have b2: "b < length (heap w2)"
    "heap w2 ! b = Some (map Obj (pre @ zs @ [moved_from env l]) @ (Obj l # replicate m Raw))"
    using w2 b1 upd by simp_all
  from move_backward_shift_Return[OF b2 refl mb]
  obtain t where w3: "w3 = w2\<lparr>heap := (heap w2)[b := Some (map Obj (pre @ hd (map (moved_from env) zs @ [moved_from env l]) # zs) @ (Obj l # replicate m Raw))], trace := t\<rparr>"
    by blast
  let ?s3 = "map Obj (pre @ hd (map (moved_from env) zs @ [moved_from env l]) # zs) @ (Obj l # replicate m Raw)"
  have b3: "b < length (heap w3)" "heap w3 ! b = Some ?s3" using w3 b2 by simp_all
  have dst: "length pre < length ?s3" "?s3 ! length pre = Obj (hd (map (moved_from env) zs @ [moved_from env l]))"
    by (simp_all add: nth_append)
  from move_assign_tmp_Return[OF b3 dst ma]
  have w': "heap w' = (heap w3)[b := Some (?s3[length pre := Obj tmp])]"
    "new_calls w' = new_calls w3" "dtor_log w' = dtor_log w3"
    by simp_all
  have "?s3[length pre := Obj tmp] = map Obj (pre @ arg_value a # zs @ [l]) @ replicate m Raw"
    using w1(1) by (simp add: list_update_append)
  then show "heap w' = (heap w)[b := Some (map Obj (pre @ arg_value a # zs @ [l]) @ replicate m Raw)]"
    using w' w3 w2 w1 by simp
  show "new_calls w' = new_calls w" "dtor_log w' = dtor_log w"
    using w' w3 w2 w1 by simp_all
qed

section \<open>Emplace\<close>

lemma representsI:
  assumes "size_m v = length xs" "length xs \<le> capacity_m (data_m v)"
    "capacity_m (data_m v) * sizeof env \<le> PTRDIFF_MAX" "0 < sizeof env" "sizeof env \<le> SIZE_MAX"
    "buffer_m (data_m v) = Ptr (Some b) 0" "b < length (heap w)"
    "heap w ! b = Some (map Obj xs @ replicate (capacity_m (data_m v) - length xs) Raw)"
    "capacity_m (data_m v) \<noteq> 0"
  shows "represents env w v xs"
  using assms by (simp add: represents_def block_at_def)

lemma ptr_diff_add:
  "offset \<le> PTRDIFF_MAX \<Longrightarrow> ptr_diff (ptr_add p offset) p = Some offset"
  by (simp add: ptr_diff_def)

theorem Emplace_Return:
  assumes r: "represents env w v xs" and off: "offset \<le> length xs"
    and run: "Vector_Emplace env (ptr_add (Vector_begin v) offset) a (v, w) = Return p (v', w')"
  shows "represents env w' v' (take offset xs @ arg_value a # drop offset xs)"
    and "p = ptr_add (Vector_begin v') offset"
    and "capacity_m (data_m v') =
           (if size_m v = capacity_m (data_m v) then max 1 (2 * capacity_m (data_m v))
            else capacity_m (data_m v))"
    and "size_m v \<noteq> capacity_m (data_m v) \<longrightarrow> data_m v' = data_m v"
    and "length (heap w) \<le> length (heap w')"
    and "\<forall>k<length (heap w). Some k \<noteq> blk (buffer_m (data_m v)) \<longrightarrow> heap w' ! k = heap w ! k"
    and "size_m v = capacity_m (data_m v) \<longrightarrow> buffer_m (data_m v') = Ptr (Some (length (heap w))) 0"
proof -
  note rb = represents_bounds[OF r]
  have offb: "offset \<le> PTRDIFF_MAX" using off rb by linarith
  have sz: "size_t (Suc (size_m v)) = Suc (length xs)"
    "size_m v = capacity_m (data_m v) \<Longrightarrow> size_t (Suc (capacity_m (data_m v))) = Suc (length xs)"
    using rb by (simp_all add: size_t_def PTRDIFF_MAX_def)
  have pd: "ptr_diff (ptr_add (Vector_begin v) offset) (Vector_begin v) = Some offset"
    using offb by (rule ptr_diff_add)
  let ?ys = "take offset xs @ arg_value a # drop offset xs"
  have all: "represents env w' v' ?ys \<and> p = ptr_add (Vector_begin v') offset \<and>
     capacity_m (data_m v') =
           (if size_m v = capacity_m (data_m v) then max 1 (2 * capacity_m (data_m v))
            else capacity_m (data_m v)) \<and>
     (size_m v \<noteq> capacity_m (data_m v) \<longrightarrow> data_m v' = data_m v) \<and>
     length (heap w) \<le> length (heap w') \<and>
     (\<forall>k<length (heap w). Some k \<noteq> blk (buffer_m (data_m v)) \<longrightarrow> heap w' ! k = heap w ! k) \<and>
     (size_m v = capacity_m (data_m v) \<longrightarrow> buffer_m (data_m v') = Ptr (Some (length (heap w))) 0)"
  proof (cases "size_m v = capacity_m (data_m v)")
    case True
    from run True obtain d where
      g: "Emplace_grow env v offset a w = Return d w'"
      and v': "v' = v\<lparr>data_m := d, size_m := Suc (length xs)\<rparr>"
      and p: "p = ptr_add (Vector_begin v') offset"
      by (auto simp: Vector_Emplace_def pd sz(2) Vector_Capacity_def RawMemory_Capacity_def Let_def
          split: outcome.splits)
    note G = Emplace_grow_Return[OF r True off g]
    let ?c' = "max 1 (2 * capacity_m (data_m v))"
    let ?B = "Some (map Obj ?ys @ replicate (?c' - Suc (length xs)) Raw)"
    have len: "length (heap w') = Suc (length (heap w))"
      using G(3) by (simp add: released_def split: option.splits)
    have bl: "blk (buffer_m (data_m v)) = Some k \<Longrightarrow> k < length (heap w)" for k
    proof (cases "capacity_m (data_m v) = 0")
      case True
      assume "blk (buffer_m (data_m v)) = Some k"
      then show ?thesis using rb(6)[OF True] by (simp add: nullptr_def)
    next
      case False
      assume k: "blk (buffer_m (data_m v)) = Some k"
      from represents_block[OF r False] obtain b where "buffer_m (data_m v) = Ptr (Some b) 0" "b < length (heap w)"
        by blast
      then show ?thesis using k by simp
    qed
    have nb: "heap w' ! length (heap w) = ?B"
      using G(3) bl by (auto simp: released_def split: option.splits)
    have fr: "\<forall>k<length (heap w). Some k \<noteq> blk (buffer_m (data_m v)) \<longrightarrow> heap w' ! k = heap w ! k"
      using G(3) by (auto simp: released_def nth_append split: option.splits)
    have c1: "Suc (length xs) \<le> max (Suc 0) (2 * length xs)"
      by (cases xs) simp_all
    have "represents env w' v' ?ys"
      apply (rule representsI[where b = "length (heap w)"])
      using v' G(1,2) rb off True len nb c1 by (auto simp: min_def)
    then show ?thesis
      using p v' G(1) True len fr by simp
  next
    case False
    then have lt: "length xs < capacity_m (data_m v)" and cpos: "capacity_m (data_m v) \<noteq> 0"
      using rb by simp_all
    from represents_block[OF r cpos] obtain b where
      b: "buffer_m (data_m v) = Ptr (Some b) 0" "b < length (heap w)"
        "heap w ! b = Some (map Obj xs @ replicate (capacity_m (data_m v) - length xs) Raw)"
      by blast
    have pts: "Vector_begin v = Ptr (Some b) 0" "Vector_end v = Ptr (Some b) (length xs)"
      using b(1) rb(1) by (simp_all add: Vector_begin_def Vector_end_def RawMemory_GetAddress_def)
    have pd2: "ptr_diff (Ptr (Some b) offset) (Ptr (Some b) 0) = Some offset"
      "ptr_diff (Ptr (Some b) (length xs)) (Ptr (Some b) 0) = Some (length xs)"
      using offb rb by (simp_all add: ptr_diff_def)
    obtain m where m: "capacity_m (data_m v) - length xs = Suc m"
      using lt by (cases "capacity_m (data_m v) - length xs") auto
    have hp: "heap w' = (heap w)[b := Some (map Obj ?ys @ replicate m Raw)] \<and>
              v' = v\<lparr>size_m := Suc (length xs)\<rparr> \<and> p = ptr_add (Vector_begin v') offset"
    proof (cases "offset = length xs")
      case True
      from run False True obtain w1 where
        c: "construct_at env (Ptr (Some b) (length xs)) a w = Return () w'"
        and v': "v' = v\<lparr>size_m := Suc (length xs)\<rparr>" "p = ptr_add (Vector_begin v') offset"
        using lt
        by (auto simp: Vector_Emplace_def pd2 sz(1) Vector_Capacity_def RawMemory_Capacity_def Let_def pts
            RawMemory_plus_def b(1) split: outcome.splits if_splits)
      from construct_at_Return[OF b(2,3) c]
      have "heap w' = (heap w)[b := Some ((map Obj xs @ replicate (capacity_m (data_m v) - length xs) Raw)[length xs := Obj (arg_value a)])]"
        by simp
      then show ?thesis using v' True m by (simp add: list_update_append)
    next
      case F2: False
      then have lt2: "offset < length xs" using off by simp
      define pre where "pre = take offset xs"
      define zs where "zs = drop offset (butlast xs)"
      define l where "l = last xs"
      have ne: "xs \<noteq> []" using lt2 by auto
      have tb: "take offset (butlast xs) = take offset xs" using lt2 by (rule take_butlast)
      have "pre @ zs @ [l] = (take offset (butlast xs) @ drop offset (butlast xs)) @ [last xs]"
        unfolding pre_def zs_def l_def tb by simp
      also have "\<dots> = butlast xs @ [last xs]" by (simp only: append_take_drop_id)
      also have "\<dots> = xs" using ne by simp
      finally have xs1: "xs = pre @ zs @ [l]" by simp
      have xs2: "length pre = offset" using lt2 by (simp add: pre_def)
      note xs = xs1 xs2
      from run False F2 have
        c: "Emplace_shift env v (length pre) a w = Return () w'"
        and v': "v' = v\<lparr>size_m := Suc (length xs)\<rparr>" "p = ptr_add (Vector_begin v') offset"
        using lt
        by (auto simp: Vector_Emplace_def pd2 sz(1) Vector_Capacity_def RawMemory_Capacity_def Let_def pts xs(2)
            split: outcome.splits if_splits)
      have blk: "heap w ! b = Some (map Obj (pre @ zs @ [l]) @ replicate (Suc m) Raw)"
        using b(3) m xs(1) by simp
      have vv: "size_m v = Suc (length pre + length zs)"
        "capacity_m (data_m v) = Suc (length pre + length zs) + Suc m" "capacity_m (data_m v) < 2 ^ 64"
        using rb m xs(1) by (simp_all add: PTRDIFF_MAX_def)
      from Emplace_shift_Return(1)[OF b(2) blk b(1) vv c]
      have "heap w' = (heap w)[b := Some (map Obj (pre @ arg_value a # zs @ [l]) @ replicate m Raw)]" .
      moreover have "pre @ arg_value a # zs @ [l] = ?ys"
        using xs by (metis append_eq_conv_conj pre_def)
      ultimately show ?thesis using v' by simp
    qed
    have m2: "capacity_m (data_m v) - Suc (length xs) = m" using m by simp
    have ly: "length ?ys = Suc (length xs)" using off by simp
    have "represents env w' v' ?ys"
    proof (rule representsI[where b = b])
      show "size_m v' = length ?ys" unfolding ly using hp by simp
      show "length ?ys \<le> capacity_m (data_m v')" unfolding ly using hp lt by simp
      show "capacity_m (data_m v') * sizeof env \<le> PTRDIFF_MAX" using hp rb by simp
      show "0 < sizeof env" "sizeof env \<le> SIZE_MAX" using rb by simp_all
      show "buffer_m (data_m v') = Ptr (Some b) 0" using hp b by simp
      show "b < length (heap w')" using hp b by simp
      have "capacity_m (data_m v') - Suc (length xs) = m" using hp m2 by simp
      then show "heap w' ! b = Some (map Obj ?ys @ replicate (capacity_m (data_m v') - length ?ys) Raw)"
        unfolding ly using hp b by simp
      show "capacity_m (data_m v') \<noteq> 0" using hp lt by simp
    qed
    then show ?thesis
      using hp False b by auto
  qed
  then show "represents env w' v' (take offset xs @ arg_value a # drop offset xs)"
    and "p = ptr_add (Vector_begin v') offset"
    and "capacity_m (data_m v') =
           (if size_m v = capacity_m (data_m v) then max 1 (2 * capacity_m (data_m v))
            else capacity_m (data_m v))"
    and "size_m v \<noteq> capacity_m (data_m v) \<longrightarrow> data_m v' = data_m v"
    and "length (heap w) \<le> length (heap w')"
    and "\<forall>k<length (heap w). Some k \<noteq> blk (buffer_m (data_m v)) \<longrightarrow> heap w' ! k = heap w ! k"
    and "size_m v = capacity_m (data_m v) \<longrightarrow> buffer_m (data_m v') = Ptr (Some (length (heap w))) 0"
    by blast+
qed

section \<open>Erase\<close>

lemma case_outcome_Return:
  "(case m of Return x s \<Rightarrow> Return (f x s) (g x s) | Throw e s \<Rightarrow> Throw e (h e s) | Fault \<Rightarrow> Fault) = Return r s' \<longleftrightarrow>
     (\<exists>x s0. m = Return x s0 \<and> r = f x s0 \<and> s' = g x s0)"
  by (cases m) auto

lemma case_outcome_Throw:
  "(case m of Return x s \<Rightarrow> Return (f x s) (g x s) | Throw e s \<Rightarrow> Throw e (h e s) | Fault \<Rightarrow> Fault) = Throw e' s' \<longleftrightarrow>
     (\<exists>s0. m = Throw e' s0 \<and> s' = h e' s0)"
  by (cases m) auto

theorem Erase_Return:
  assumes r: "represents env w v xs" and off: "offset < length xs"
    and run: "Vector_Erase env (ptr_add (Vector_begin v) offset) (v, w) = Return p (v', w')"
  shows "represents env w' v' (take offset xs @ drop (Suc offset) xs)"
    and "p = ptr_add (Vector_begin v') offset"
    and "data_m v' = data_m v"
    and "dtor_log w' = dtor_log w @ [ptr_add (Vector_begin v) (length xs - 1)]"
    and "new_calls w' = new_calls w"
    and "length (heap w') = length (heap w)"
    and "\<forall>k<length (heap w). Some k \<noteq> blk (buffer_m (data_m v)) \<longrightarrow> heap w' ! k = heap w ! k"
proof -
  note rb = represents_bounds[OF r]
  have cpos: "capacity_m (data_m v) \<noteq> 0" using rb off by simp
  from represents_block[OF r cpos] obtain b where
    b: "buffer_m (data_m v) = Ptr (Some b) 0" "b < length (heap w)"
      "heap w ! b = Some (map Obj xs @ replicate (capacity_m (data_m v) - length xs) Raw)"
    by blast
  define pre where "pre = take offset xs"
  define y where "y = xs ! offset"
  define zs where "zs = drop (Suc offset) xs"
  define rest :: "'a slot list" where "rest = replicate (capacity_m (data_m v) - length xs) Raw"
  have xs: "xs = pre @ y # zs" "length pre = offset"
    using off by (simp_all add: pre_def y_def zs_def id_take_nth_drop[symmetric])
  have n: "length xs = Suc (offset + length zs)" using xs by simp
  have pts: "Vector_begin v = Ptr (Some b) 0" "Vector_end v = Ptr (Some b) (length xs)"
    "RawMemory_GetAddress (data_m v) = Ptr (Some b) 0"
    using b(1) rb(1) by (simp_all add: Vector_begin_def Vector_end_def RawMemory_GetAddress_def)
  have pd: "ptr_diff (Ptr (Some b) offset) (Ptr (Some b) 0) = Some offset"
    using off rb by (simp add: ptr_diff_def)
  have cnt: "size_m v - Suc offset = length zs" using rb(1) n by simp
  have guard: "ptr_le (Vector_begin v) (Ptr (Some b) offset) \<and> ptr_less (Ptr (Some b) offset) (Vector_end v)"
    using off by (simp add: pts ptr_le_def ptr_less_def)
  have sz1: "size_m v - Suc 0 = offset + length zs" "size_m v - 1 = offset + length zs"
    using rb(1) n by simp_all
  have E: "Vector_Erase env (Ptr (Some b) offset) (v, w) =
     (case bind (std_move env (Ptr (Some b) (Suc offset)) (length zs) (Ptr (Some b) offset))
             (\<lambda>_. destroy_at (Ptr (Some b) (offset + length zs))) w of
        Return _ w' \<Rightarrow> Return (Ptr (Some b) offset) (v\<lparr>size_m := offset + length zs\<rparr>, w')
      | Throw e w' \<Rightarrow> Throw e (v, w')
      | Fault \<Rightarrow> Fault)"
    unfolding Vector_Erase_def using guard
    by (simp add: pd pts cnt sz1 cong: outcome.case_cong)
  from run have "Vector_Erase env (Ptr (Some b) offset) (v, w) = Return p (v', w')"
    by (simp add: pts)
  then obtain w1 where
    mv: "move_loop env (Ptr (Some b) (Suc offset)) (Ptr (Some b) offset) 0 (length zs) w = Return () w1"
    and ds: "destroy_at (Ptr (Some b) (offset + length zs)) w1 = Return () w'"
    and v': "v' = v\<lparr>size_m := offset + length zs\<rparr>" "p = Ptr (Some b) offset"
    unfolding E case_outcome_Return bind_Return_iff std_move_def
    by auto
  have blk: "heap w ! b = Some (map Obj (pre @ y # zs) @ rest)"
    using b(3) xs(1) by (simp add: rest_def)
  have lp: "length pre = offset + 0" using xs(2) by simp
  from move_loop_shift_Return[OF b(2) blk lp mv]
  obtain t where w1: "w1 = w\<lparr>heap := (heap w)[b := Some (map Obj (pre @ zs @ [last (y # map (moved_from env) zs)]) @ rest)], trace := t\<rparr>"
    by blast
  let ?s1 = "map Obj (pre @ zs @ [last (y # map (moved_from env) zs)]) @ rest"
  have b1: "b < length (heap w1)" "heap w1 ! b = Some ?s1" using w1 b(2) by simp_all
  from ds destroy_at_Ptr[OF b1, of "offset + length zs"] xs(2)
  have w': "w' = w1\<lparr>heap := (heap w1)[b := Some (?s1[offset + length zs := Raw])],
                    dtor_log := dtor_log w1 @ [Ptr (Some b) (offset + length zs)]\<rparr>"
    by (simp split: if_splits)
  have upd: "?s1[offset + length zs := Raw] = map Obj (pre @ zs) @ Raw # rest"
    using xs(2) by (simp add: list_update_append)
  have ys: "take offset xs @ drop (Suc offset) xs = pre @ zs" by (simp add: pre_def zs_def)
  have hw': "heap w' = (heap w)[b := Some (map Obj (pre @ zs) @ Raw # rest)]"
    using w' w1 upd by simp
  show "represents env w' v' (take offset xs @ drop (Suc offset) xs)"
    unfolding ys
  proof (rule representsI[where b = b])
    show "size_m v' = length (pre @ zs)" using v' xs(2) by simp
    show "length (pre @ zs) \<le> capacity_m (data_m v')" using v' rb n xs(2) by simp
    show "capacity_m (data_m v') * sizeof env \<le> PTRDIFF_MAX" using v' rb by simp
    show "0 < sizeof env" "sizeof env \<le> SIZE_MAX" using rb by simp_all
    show "buffer_m (data_m v') = Ptr (Some b) 0" using v' b by simp
    show "b < length (heap w')" using hw' b by simp
    have "Raw # rest = replicate (capacity_m (data_m v') - length (pre @ zs)) Raw"
      using v' rb(2) n xs(2) by (simp add: rest_def Suc_diff_le flip: replicate_Suc)
    then show "heap w' ! b = Some (map Obj (pre @ zs) @ replicate (capacity_m (data_m v') - length (pre @ zs)) Raw)"
      using hw' b by simp
    show "capacity_m (data_m v') \<noteq> 0" using v' cpos by simp
  qed
  show "p = ptr_add (Vector_begin v') offset" using v' pts b by (simp add: Vector_begin_def RawMemory_GetAddress_def)
  show "data_m v' = data_m v" using v' by simp
  show "dtor_log w' = dtor_log w @ [ptr_add (Vector_begin v) (length xs - 1)]"
    using w' w1 pts n by simp
  show "new_calls w' = new_calls w" using w' w1 by simp
  show "length (heap w') = length (heap w)" using hw' by simp
  show "\<forall>k<length (heap w). Some k \<noteq> blk (buffer_m (data_m v)) \<longrightarrow> heap w' ! k = heap w ! k"
    using hw' b by simp
qed

section \<open>Reserve\<close>

lemma released_frame:
  "k < length h \<Longrightarrow> Some k \<noteq> blk (buffer_m (data_m v)) \<Longrightarrow> released v h ! k = h ! k"
  by (auto simp: released_def split: option.splits)

lemma length_released [simp]: "length (released v h) = length h"
  by (simp add: released_def split: option.splits)

lemma represents_blk_less:
  assumes "represents env w v xs" "blk (buffer_m (data_m v)) = Some k"
  shows "k < length (heap w)"
proof (cases "capacity_m (data_m v) = 0")
  case True
  then show ?thesis using represents_bounds(6)[OF assms(1)] assms(2) by (simp add: nullptr_def)
next
  case False
  from represents_block[OF assms(1) False] obtain b where
    "buffer_m (data_m v) = Ptr (Some b) 0" "b < length (heap w)"
    by blast
  then show ?thesis using assms(2) by simp
qed

lemma RawMemory_dtor_Ptr:
  "b < length (heap w) \<Longrightarrow> heap w ! b = Some ss \<Longrightarrow>
   RawMemory_dtor \<lparr>buffer_m = Ptr (Some b) 0, capacity_m = c\<rparr> w = Return () (w\<lparr>heap := (heap w)[b := None]\<rparr>)"
  by (simp add: RawMemory_dtor_def RawMemory_Deallocate_def operator_delete_def block_at_def)

lemma RawMemory_dtor_null:
  "RawMemory_dtor \<lparr>buffer_m = nullptr, capacity_m = c\<rparr> w = Return () w"
  by (simp add: RawMemory_dtor_def RawMemory_Deallocate_def operator_delete_def nullptr_def)

theorem Reserve_Return:
  assumes r: "represents env w v xs" and gt: "capacity_m (data_m v) < n"
    and run: "Vector_Reserve env n (v, w) = Return u (v', w')"
  shows "v' = v\<lparr>data_m := \<lparr>buffer_m = Ptr (Some (length (heap w))) 0, capacity_m = n\<rparr>\<rparr>"
    and "size_t (n * sizeof env) \<le> PTRDIFF_MAX"
    and "xs \<noteq> [] \<longrightarrow> length xs \<le> size_t (n * sizeof env) div sizeof env"
    and "heap w' = released v (heap w @
           [Some (map Obj xs @ replicate (size_t (n * sizeof env) div sizeof env - length xs) Raw)])"
    and "new_calls w' = new_calls w @ [size_t (n * sizeof env)]"
    and "dtor_log w' = dtor_log w @ map (\<lambda>j. ptr_add (Vector_begin v) j) [0..<length xs]"
    and "trace w' = trace w @ map (relocation_op env) xs"
proof -
  define m where "m = size_t (n * sizeof env) div sizeof env"
  define nb where "nb = length (heap w)"
  note rb = represents_bounds[OF r]
  have n0: "n \<noteq> 0" using gt by simp
  have ng: "\<not> n \<le> RawMemory_Capacity (data_m v)" using gt by (simp add: RawMemory_Capacity_def)
  from run ng obtain d where
    body: "bind (RawMemory_ctor env n) (\<lambda>new_data.
               catch_rethrow catch_all (RawMemory_dtor new_data)
                 (bind (relocate_n env (RawMemory_GetAddress (data_m v)) (size_m v) (RawMemory_GetAddress new_data)) (\<lambda>_.
                  bind (destroy_n (RawMemory_GetAddress (data_m v)) (size_m v)) (\<lambda>_.
                  (case RawMemory_Swap (data_m v) new_data of
                     (d, nd) \<Rightarrow> bind (RawMemory_dtor nd) (\<lambda>_. Return d)))))) w = Return d w'"
    and v': "v' = v\<lparr>data_m := d\<rparr>"
    unfolding Vector_Reserve_def by (simp add: case_outcome_Return) blast
  from body obtain nd w1 w2 w3 where
    alloc: "RawMemory_ctor env n w = Return nd w1"
    and rel: "relocate_n env (RawMemory_GetAddress (data_m v)) (size_m v) (RawMemory_GetAddress nd) w1 = Return () w2"
    and des: "destroy_n (RawMemory_GetAddress (data_m v)) (size_m v) w2 = Return () w3"
    and del: "RawMemory_dtor (data_m v) w3 = Return () w'"
    and d: "d = nd"
    by (auto simp: bind_Return_iff catch_rethrow_Return_iff)
  note a = RawMemory_ctor_Return[OF alloc n0]
  have nd: "nd = \<lparr>buffer_m = Ptr (Some nb) 0, capacity_m = n\<rparr>" using a(1) by (simp add: nb_def)
  have w1: "heap w1 = heap w @ [Some (replicate m Raw)]" "new_calls w1 = new_calls w @ [size_t (n * sizeof env)]"
    "dtor_log w1 = dtor_log w" "trace w1 = trace w"
    using a(2) by (simp_all add: m_def)
  show "v' = v\<lparr>data_m := \<lparr>buffer_m = Ptr (Some (length (heap w))) 0, capacity_m = n\<rparr>\<rparr>"
    using v' d nd by (simp add: nb_def)
  show "size_t (n * sizeof env) \<le> PTRDIFF_MAX" by (rule a(3))
  have goal: "(xs \<noteq> [] \<longrightarrow> length xs \<le> m) \<and>
        heap w' = released v (heap w @ [Some (map Obj xs @ replicate (m - length xs) Raw)]) \<and>
        new_calls w' = new_calls w @ [size_t (n * sizeof env)] \<and>
        dtor_log w' = dtor_log w @ map (\<lambda>j. ptr_add (Vector_begin v) j) [0..<length xs] \<and>
        trace w' = trace w @ map (relocation_op env) xs"
  proof (cases "capacity_m (data_m v) = 0")
    case True
    then have e: "xs = []" "size_m v = 0" "buffer_m (data_m v) = nullptr"
      using rb by auto
    have dm: "data_m v = \<lparr>buffer_m = nullptr, capacity_m = 0\<rparr>"
      using e True by (cases "data_m v") simp
    have "w2 = w1" "w3 = w2" "w' = w3"
      using rel des del e by (simp_all add: dm RawMemory_dtor_null)
    then show ?thesis
      using w1 e by (simp add: released_def nullptr_def)
  next
    case False
    from represents_block[OF r False] obtain b where
      b: "buffer_m (data_m v) = Ptr (Some b) 0" "b < length (heap w)"
        "heap w ! b = Some (map Obj xs @ replicate (capacity_m (data_m v) - length xs) Raw)"
      by blast
    let ?src = "map Obj xs @ replicate (capacity_m (data_m v) - length xs) Raw"
    have dm: "data_m v = \<lparr>buffer_m = Ptr (Some b) 0, capacity_m = capacity_m (data_m v)\<rparr>"
      using b(1) by (cases "data_m v") simp
    have bn: "b \<noteq> nb" "b < length (heap w1)" "nb < length (heap w1)"
      using b(2) w1 by (simp_all add: nb_def)
    have hb1: "heap w1 ! b = Some ?src" using b w1 by (simp add: nth_append)
    have hn1: "heap w1 ! nb = Some (replicate m Raw)" using w1 by (simp add: nb_def)
    have ga: "RawMemory_GetAddress (data_m v) = Ptr (Some b) 0" "Vector_begin v = Ptr (Some b) 0"
      using b(1) by (simp_all add: RawMemory_GetAddress_def Vector_begin_def)
    have rel': "relocate_n env (Ptr (Some b) 0) (length xs) (Ptr (Some nb) 0) w1 = Return () w2"
      using rel rb(1) by (simp add: b(1) nd RawMemory_GetAddress_def)
    have src: "0 + length xs \<le> length ?src" "\<forall>i<length xs. ?src ! (0 + i) = Obj (xs ! i)"
      by (simp_all add: nth_append)
    from relocate_n_Return[OF bn hb1 hn1 src rel']
    obtain src' where s1: "length src' = length ?src"
        "heap w2 = (heap w1)[b := Some src', nb := Some (take 0 (replicate m Raw) @ map Obj xs @ drop (0 + length xs) (replicate m Raw))]"
      and l2: "xs \<noteq> [] \<longrightarrow> 0 + length xs \<le> length (replicate m Raw :: 'a slot list)"
        "new_calls w2 = new_calls w1" "dtor_log w2 = dtor_log w1"
        "trace w2 = trace w1 @ map (relocation_op env) xs"
      by auto
    have h2: "heap w2 = (heap w1)[b := Some src', nb := Some (map Obj xs @ replicate (m - length xs) Raw)]"
      using s1(2) by simp
    have b2: "b < length (heap w2)" "heap w2 ! b = Some src'" using h2 bn by simp_all
    have des': "destroy_n (Ptr (Some b) 0) (length xs) w2 = Return () w3"
      using des rb(1) by (simp add: ga)
    have "0 + length xs \<le> length src'" using s1(1) by simp
    from destroy_n_Return(1)[OF b2 this des']
    have w3: "heap w3 = (heap w2)[b := Some (take 0 src' @ replicate (length xs) Raw @ drop (0 + length xs) src')]"
      "new_calls w3 = new_calls w2" "trace w3 = trace w2"
      "dtor_log w3 = dtor_log w2 @ map (\<lambda>j. Ptr (Some b) (0 + j)) [0..<length xs]"
      by auto
    have b3: "b < length (heap w3)"
      "heap w3 ! b = Some (take 0 src' @ replicate (length xs) Raw @ drop (0 + length xs) src')"
      using w3(1) b2 by simp_all
    from del RawMemory_dtor_Ptr[OF b3, of "capacity_m (data_m v)"]
    have w': "w' = w3\<lparr>heap := (heap w3)[b := None]\<rparr>"
      by (subst (asm) dm) simp
    have "heap w' = (heap w @ [Some (map Obj xs @ replicate (m - length xs) Raw)])[b := None]"
      unfolding w' using w3(1) h2 w1(1) b(2)
      by (auto simp: list_eq_iff_nth_eq nth_list_update nth_append nb_def)
    then show ?thesis
      using w' w3 l2 w1 b(1) by (simp add: released_def ga del: upt_Suc)
  qed
  then show "xs \<noteq> [] \<longrightarrow> length xs \<le> size_t (n * sizeof env) div sizeof env"
    and "heap w' = released v (heap w @
           [Some (map Obj xs @ replicate (size_t (n * sizeof env) div sizeof env - length xs) Raw)])"
    and "new_calls w' = new_calls w @ [size_t (n * sizeof env)]"
    and "dtor_log w' = dtor_log w @ map (\<lambda>j. ptr_add (Vector_begin v) j) [0..<length xs]"
    and "trace w' = trace w @ map (relocation_op env) xs"
    by (simp_all add: m_def)
qed

section \<open>Resize\<close>

lemma represents_elements:
  assumes "represents env w v xs"
  shows "elements w v = Some xs"
proof (cases "capacity_m (data_m v) = 0")
  case True
  then have "xs = []" "size_m v = 0" using represents_bounds[OF assms] by auto
  then show ?thesis by (simp add: elements_def)
next
  case False
  from represents_block[OF assms False] obtain b where
    b: "buffer_m (data_m v) = Ptr (Some b) 0" "b < length (heap w)"
      "heap w ! b = Some (map Obj xs @ replicate (capacity_m (data_m v) - length xs) Raw)"
    by blast
  have "objects w (Ptr (Some b) 0) (length xs) = Some xs"
    by (rule objects_block[OF b(2,3)]) (simp_all add: nth_append)
  then show ?thesis
    using b(1) represents_bounds(1)[OF assms]
    by (simp add: elements_def Vector_begin_def RawMemory_GetAddress_def)
qed

lemma slots_exact:
  assumes "n \<le> size_t (n * s) div s" "0 < s"
  shows "size_t (n * s) = n * s"
proof -
  have "n * s \<le> (size_t (n * s) div s) * s" using assms(1) by (rule mult_le_mono1)
  also have "\<dots> \<le> size_t (n * s)" by simp
  finally have "n * s \<le> size_t (n * s)" .
  moreover have "size_t (n * s) \<le> n * s" by (simp add: size_t_def)
  ultimately show ?thesis by simp
qed

lemma Resize_shrink:
  assumes r: "represents env w v xs" and le: "n \<le> length xs"
  shows "\<exists>w'. Vector_Resize env n (v, w) = Return () (v\<lparr>size_m := n\<rparr>, w') \<and>
           represents env w' (v\<lparr>size_m := n\<rparr>) (take n xs) \<and>
           dtor_log w' = dtor_log w @ map (\<lambda>j. ptr_add (Vector_begin v) (n + j)) [0..<length xs - n] \<and>
           trace w' = trace w \<and> new_calls w' = new_calls w \<and> length (heap w') = length (heap w) \<and>
           (\<forall>k<length (heap w). Some k \<noteq> blk (buffer_m (data_m v)) \<longrightarrow> heap w' ! k = heap w ! k)"
proof (cases "capacity_m (data_m v) = 0")
  note rb = represents_bounds[OF r]
  case True
  then have e: "xs = []" "size_m v = 0" "n = 0" using rb le by auto
  have veq: "v\<lparr>size_m := n\<rparr> = v" using e by simp
  have "Vector_Resize env n (v, w) = Return () (v, w)"
    using e by (simp add: Vector_Resize_def veq)
  then show ?thesis
    unfolding veq using e r by (intro exI[of _ w]) simp
next
  note rb = represents_bounds[OF r]
  case False
  from represents_block[OF r False] obtain b where
    b: "buffer_m (data_m v) = Ptr (Some b) 0" "b < length (heap w)"
      "heap w ! b = Some (map Obj xs @ replicate (capacity_m (data_m v) - length xs) Raw)"
    by blast
  let ?ss = "map Obj xs @ replicate (capacity_m (data_m v) - length xs) Raw"
  let ?w' = "w\<lparr>heap := (heap w)[b := Some (take (0 + n) ?ss @ replicate (length xs - n) Raw @ drop (0 + n + (length xs - n)) ?ss)],
                 dtor_log := dtor_log w @ map (\<lambda>j. Ptr (Some b) (0 + n + j)) [0..<length xs - n]\<rparr>"
  have bound: "0 + n + (length xs - n) \<le> length ?ss" using le rb by simp
  have objs: "\<forall>j<length xs - n. is_Obj (?ss ! (n + j))"
    using le by (intro all_Obj_map) simp
  have d: "destroy_n (Ptr (Some b) n) (length xs - n) w = Return () ?w'"
    using destroy_n_Ptr[OF b(2,3) _ objs] bound by simp
  have run: "Vector_Resize env n (v, w) = Return () (v\<lparr>size_m := n\<rparr>, ?w')"
    using le rb(1) d by (simp add: Vector_Resize_def RawMemory_GetAddress_def b(1))
  have blk: "take (0 + n) ?ss @ replicate (length xs - n) Raw @ drop (0 + n + (length xs - n)) ?ss =
             map Obj (take n xs) @ replicate (capacity_m (data_m v) - n) Raw"
    using le rb(2) by (simp add: take_map replicate_add[symmetric])
  have rep: "represents env ?w' (v\<lparr>size_m := n\<rparr>) (take n xs)"
  proof (rule representsI[where b = b])
    show "size_m (v\<lparr>size_m := n\<rparr>) = length (take n xs)" using le by simp
    show "length (take n xs) \<le> capacity_m (data_m (v\<lparr>size_m := n\<rparr>))" using le rb by simp
    show "capacity_m (data_m (v\<lparr>size_m := n\<rparr>)) * sizeof env \<le> PTRDIFF_MAX" using rb by simp
    show "0 < sizeof env" "sizeof env \<le> SIZE_MAX" using rb by simp_all
    show "buffer_m (data_m (v\<lparr>size_m := n\<rparr>)) = Ptr (Some b) 0" using b by simp
    show "b < length (heap ?w')" using b by simp
    show "heap ?w' ! b = Some (map Obj (take n xs) @ replicate (capacity_m (data_m (v\<lparr>size_m := n\<rparr>)) - length (take n xs)) Raw)"
      using b(2) blk le by (simp add: min_def)
    show "capacity_m (data_m (v\<lparr>size_m := n\<rparr>)) \<noteq> 0" using False by simp
  qed
  show ?thesis
    apply (rule exI[of _ ?w'])
    using run rep b by (simp add: Vector_begin_def RawMemory_GetAddress_def)
qed

lemma Reserve_noop:
  "n \<le> capacity_m (data_m v) \<Longrightarrow> Vector_Reserve env n (v, w) = Return () (v, w)"
  by (simp add: Vector_Reserve_def RawMemory_Capacity_def)

theorem Resize_grow_Return:
  assumes r: "represents env w v xs" and gt: "length xs < n"
    and run: "Vector_Resize env n (v, w) = Return u (v', w')"
  shows "represents env w' v' (xs @ replicate (n - length xs) (default_init env))"
    and "capacity_m (data_m v') = max (capacity_m (data_m v)) n"
    and "\<exists>v1 w1. Vector_Reserve env n (v, w) = Return () (v1, w1) \<and>
           uninitialized_default_construct_n env (Vector_end v1) (n - size_m v) w1 = Return () w' \<and>
           v' = v1\<lparr>size_m := n\<rparr>"
    and "length (heap w) \<le> length (heap w')"
    and "\<forall>k<length (heap w). Some k \<noteq> blk (buffer_m (data_m v)) \<longrightarrow> heap w' ! k = heap w ! k"
proof -
  note rb = represents_bounds[OF r]
  let ?cnt = "n - length xs"
  let ?ys = "xs @ replicate ?cnt (default_init env)"
  have ng: "\<not> n \<le> size_m v" using gt rb by simp
  from run ng obtain v1 w1 where
    res: "Vector_Reserve env n (v, w) = Return () (v1, w1)"
    and dc: "uninitialized_default_construct_n env (ptr_add (RawMemory_GetAddress (data_m v1)) (size_m v1)) (n - size_m v1) w1 = Return () w'"
    and v': "v' = v1\<lparr>size_m := n\<rparr>"
    unfolding Vector_Resize_def
    by (auto split: outcome.splits prod.splits)
  have main: "represents env w' v' ?ys \<and> capacity_m (data_m v') = max (capacity_m (data_m v)) n \<and>
      size_m v1 = size_m v \<and> length (heap w) \<le> length (heap w') \<and>
      (\<forall>k<length (heap w). Some k \<noteq> blk (buffer_m (data_m v)) \<longrightarrow> heap w' ! k = heap w ! k)"
  proof (cases "n \<le> capacity_m (data_m v)")
    case True
    then have e: "v1 = v" "w1 = w" using res by (simp_all add: Reserve_noop)
    have cpos: "capacity_m (data_m v) \<noteq> 0" using True gt by simp
    from represents_block[OF r cpos] obtain b where
      b: "buffer_m (data_m v) = Ptr (Some b) 0" "b < length (heap w)"
        "heap w ! b = Some (map Obj xs @ replicate (capacity_m (data_m v) - length xs) Raw)"
      by blast
    let ?ss = "map Obj xs @ replicate (capacity_m (data_m v) - length xs) Raw"
    have dc': "uninitialized_loop (\<lambda>k. default_construct env (ptr_add (Ptr (Some b) (length xs)) k)) (Ptr (Some b) (length xs)) 0 ?cnt w = Return () w'"
      using dc e rb(1) by (simp add: uninitialized_default_construct_n_def RawMemory_GetAddress_def b(1))
    from uninit_default_Return[OF b(2,3) dc']
    have hw': "heap w' = (heap w)[b := Some (take (length xs + 0) ?ss @ replicate ?cnt (Obj (default_init env)) @ drop (length xs + 0 + ?cnt) ?ss)]"
      by simp
    have blk: "take (length xs + 0) ?ss @ replicate ?cnt (Obj (default_init env)) @ drop (length xs + 0 + ?cnt) ?ss =
               map Obj ?ys @ replicate (capacity_m (data_m v) - n) Raw"
      using gt True by (simp add: map_replicate)
    have "represents env w' v' ?ys"
    proof (rule representsI[where b = b])
      show "size_m v' = length ?ys" using v' gt by simp
      show "length ?ys \<le> capacity_m (data_m v')" using v' e True gt by simp
      show "capacity_m (data_m v') * sizeof env \<le> PTRDIFF_MAX" using v' e rb by simp
      show "0 < sizeof env" "sizeof env \<le> SIZE_MAX" using rb by simp_all
      show "buffer_m (data_m v') = Ptr (Some b) 0" using v' e b by simp
      show "b < length (heap w')" using hw' b by simp
      have "length ?ys = n" using gt by simp
      then show "heap w' ! b = Some (map Obj ?ys @ replicate (capacity_m (data_m v') - length ?ys) Raw)"
        using hw' b(2) blk v' e by simp
      show "capacity_m (data_m v') \<noteq> 0" using v' e cpos by simp
    qed
    then show ?thesis using v' e True hw' b by (simp add: max_def)
  next
    case False
    then have lt: "capacity_m (data_m v) < n" by simp
    define m where "m = size_t (n * sizeof env) div sizeof env"
    define nb where "nb = length (heap w)"
    note R = Reserve_Return[OF r lt res]
    let ?B = "map Obj xs @ replicate (m - length xs) Raw"
    have h1: "heap w1 = released v (heap w @ [Some ?B])" using R(4) by (simp add: m_def)
    have nbl: "nb < length (heap w1)" using h1 by (simp add: nb_def)
    have "Some nb \<noteq> blk (buffer_m (data_m v))"
      using represents_blk_less[OF r, of nb] by (auto simp: nb_def)
    then have hn1: "heap w1 ! nb = Some ?B"
      unfolding h1 by (subst released_frame) (simp_all add: nb_def)
    have v1: "v1 = v\<lparr>data_m := \<lparr>buffer_m = Ptr (Some nb) 0, capacity_m = n\<rparr>\<rparr>"
      using R(1) by (simp add: nb_def)
    have dc': "uninitialized_loop (\<lambda>k. default_construct env (ptr_add (Ptr (Some nb) (length xs)) k)) (Ptr (Some nb) (length xs)) 0 ?cnt w1 = Return () w'"
      using dc v1 rb(1) by (simp add: uninitialized_default_construct_n_def RawMemory_GetAddress_def)
    from uninit_default_Return[OF nbl hn1 dc'] gt
    have bnd: "length xs + 0 + ?cnt \<le> length ?B"
      and hw': "heap w' = (heap w1)[nb := Some (take (length xs + 0) ?B @ replicate ?cnt (Obj (default_init env)) @ drop (length xs + 0 + ?cnt) ?B)]"
      by simp_all
    have nm: "n \<le> m" using bnd gt by simp
    have ex: "size_t (n * sizeof env) = n * sizeof env"
      using nm rb(4) unfolding m_def by (rule slots_exact)
    then have mn: "m = n" using rb(4) by (simp add: m_def)
    have blk: "take (length xs + 0) ?B @ replicate ?cnt (Obj (default_init env)) @ drop (length xs + 0 + ?cnt) ?B =
               map Obj ?ys @ replicate (n - n) Raw"
      using gt mn by (simp add: map_replicate)
    have "represents env w' v' ?ys"
    proof (rule representsI[where b = nb])
      show "size_m v' = length ?ys" using v' gt by simp
      show "length ?ys \<le> capacity_m (data_m v')" using v' v1 gt by simp
      show "capacity_m (data_m v') * sizeof env \<le> PTRDIFF_MAX" using v' v1 R(2) ex by simp
      show "0 < sizeof env" "sizeof env \<le> SIZE_MAX" using rb by simp_all
      show "buffer_m (data_m v') = Ptr (Some nb) 0" using v' v1 by simp
      show "nb < length (heap w')" using hw' nbl by simp
      have "length ?ys = n" using gt by simp
      then show "heap w' ! nb = Some (map Obj ?ys @ replicate (capacity_m (data_m v') - length ?ys) Raw)"
        using hw' nbl blk v' v1 by simp
      show "capacity_m (data_m v') \<noteq> 0" using v' v1 gt by simp
    qed
    moreover have "\<forall>k<length (heap w). Some k \<noteq> blk (buffer_m (data_m v)) \<longrightarrow> heap w' ! k = heap w ! k"
      unfolding hw' h1 by (auto simp: released_frame nb_def nth_append)
    ultimately show ?thesis using v' v1 lt hw' h1 by (simp add: max_def)
  qed
  then show "represents env w' v' ?ys"
    and "capacity_m (data_m v') = max (capacity_m (data_m v)) n"
    and "length (heap w) \<le> length (heap w')"
    and "\<forall>k<length (heap w). Some k \<noteq> blk (buffer_m (data_m v)) \<longrightarrow> heap w' ! k = heap w ! k"
    by blast+
  show "\<exists>v1 w1. Vector_Reserve env n (v, w) = Return () (v1, w1) \<and>
           uninitialized_default_construct_n env (Vector_end v1) (n - size_m v) w1 = Return () w' \<and>
           v' = v1\<lparr>size_m := n\<rparr>"
    using res dc v' main by (auto simp: Vector_end_def)
qed

section \<open>Copy construction and destruction\<close>

lemma assign_loop_trace_Return:
  assumes "sb \<noteq> db" "sb < length (heap w)" "db < length (heap w)"
    and "heap w ! sb = Some src" "heap w ! db = Some dst"
    and "k + length zs \<le> length src" "\<forall>i<length zs. src ! (k + i) = Obj (zs ! i)"
    and "k + length zs \<le> length dst" "\<forall>i<length zs. dst ! (k + i) = Obj (os ! i)" "length os = length zs"
    and "assign_loop env \<lparr>buffer_m = Ptr (Some db) 0, capacity_m = c\<rparr> \<lparr>buffer_m = Ptr (Some sb) 0, capacity_m = rc\<rparr> k (length zs) w = Return () w'"
  shows "w' = w\<lparr>heap := (heap w)[db := Some (take k dst @ map Obj zs @ drop (k + length zs) dst)],
                trace := trace w @ map (\<lambda>(y, x). CopyAssign y x) (zip os zs)\<rparr>"
  using assms
proof (induction zs arbitrary: k w dst os)
  case Nil
  then show ?case by simp
next
  case (Cons z zs)
  from Cons.prems(10) obtain y os' where os: "os = y # os'" by (cases os) auto
  from Cons.prems(6,7) have x: "k < length src" "src ! k = Obj z"
    by auto
  from Cons.prems(8,9) os have y: "k < length dst" "dst ! k = Obj y"
    by auto
  from Cons.prems(11) obtain w1 where
    c: "copy_assign env (Ptr (Some db) k) (Ptr (Some sb) k) w = Return () w1"
    and l: "assign_loop env \<lparr>buffer_m = Ptr (Some db) 0, capacity_m = c\<rparr> \<lparr>buffer_m = Ptr (Some sb) 0, capacity_m = rc\<rparr> (Suc k) (length zs) w1 = Return () w'"
    by (auto simp: RawMemory_index_def split: outcome.splits if_splits)
  from copy_assign_Return[OF Cons.prems(2) Cons.prems(4) x Cons.prems(3) Cons.prems(5) y c]
  have w1: "w1 = w\<lparr>heap := (heap w)[db := Some (dst[k := Obj z])], trace := trace w @ [CopyAssign y z]\<rparr>" .
  have nth: "\<forall>i<length zs. src ! (Suc k + i) = Obj (zs ! i)"
    using nth_shift[of z zs src 0 k] Cons.prems(7) by simp
  have nth2: "\<forall>i<length zs. dst[k := Obj z] ! (Suc k + i) = Obj (os' ! i)"
    using nth_shift[of y os' dst 0 k] Cons.prems(9,10) os by simp
  have "w' = w1\<lparr>heap := (heap w1)[db := Some (take (Suc k) (dst[k := Obj z]) @ map Obj zs @ drop (Suc k + length zs) (dst[k := Obj z]))],
               trace := trace w1 @ map (\<lambda>(y, x). CopyAssign y x) (zip os' zs)\<rparr>"
    apply (rule Cons.IH[OF Cons.prems(1)])
    using Cons.prems os w1 nth nth2 l by auto
  then show ?case
    using y w1 os by (auto simp: take_Suc_conv_app_nth)
qed

lemma Vector_dtor_Return:
  assumes r: "represents env w v xs"
  shows "\<exists>w'. Vector_dtor v w = Return () w' \<and> heap w' = released v (heap w) \<and>
          new_calls w' = new_calls w \<and> trace w' = trace w \<and>
          dtor_log w' = dtor_log w @ map (\<lambda>j. ptr_add (Vector_begin v) j) [0..<length xs]"
proof (cases "capacity_m (data_m v) = 0")
  note rb = represents_bounds[OF r]
  case True
  then have e: "xs = []" "size_m v = 0" "buffer_m (data_m v) = nullptr" using rb by auto
  have dm: "data_m v = \<lparr>buffer_m = nullptr, capacity_m = 0\<rparr>"
    using e True by (cases "data_m v") simp
  have "Vector_dtor v w = Return () w"
    using e by (simp add: Vector_dtor_def dm RawMemory_dtor_null)
  then show ?thesis
    using e by (simp add: released_def nullptr_def)
next
  note rb = represents_bounds[OF r]
  case False
  from represents_block[OF r False] obtain b where
    b: "buffer_m (data_m v) = Ptr (Some b) 0" "b < length (heap w)"
      "heap w ! b = Some (map Obj xs @ replicate (capacity_m (data_m v) - length xs) Raw)"
    by blast
  let ?ss = "map Obj xs @ replicate (capacity_m (data_m v) - length xs) Raw"
  have dm: "data_m v = \<lparr>buffer_m = Ptr (Some b) 0, capacity_m = capacity_m (data_m v)\<rparr>"
    using b(1) by (cases "data_m v") simp
  let ?w1 = "w\<lparr>heap := (heap w)[b := Some (take 0 ?ss @ replicate (length xs) Raw @ drop (0 + length xs) ?ss)],
                 dtor_log := dtor_log w @ map (\<lambda>j. Ptr (Some b) (0 + j)) [0..<length xs]\<rparr>"
  have d: "destroy_n (Ptr (Some b) 0) (length xs) w = Return () ?w1"
    by (rule destroy_n_Ptr[OF b(2,3)]) (simp_all add: nth_append)
  have b1: "b < length (heap ?w1)"
    "heap ?w1 ! b = Some (take 0 ?ss @ replicate (length xs) Raw @ drop (0 + length xs) ?ss)"
    using b(2) by simp_all
  have f: "RawMemory_dtor (data_m v) ?w1 = Return () (?w1\<lparr>heap := (heap ?w1)[b := None]\<rparr>)"
    by (subst dm) (rule RawMemory_dtor_Ptr[OF b1])
  have "Vector_dtor v w = Return () (?w1\<lparr>heap := (heap ?w1)[b := None]\<rparr>)"
    using d f rb(1) by (simp add: Vector_dtor_def RawMemory_GetAddress_def b(1))
  then show ?thesis
    using b(1) by (simp add: released_def Vector_begin_def RawMemory_GetAddress_def del: upt_Suc)
qed

lemma Vector_copy_Return:
  assumes r: "represents env w other ys"
    and run: "Vector_copy env other w = Return tmp w'"
  shows "tmp = (if ys = [] then \<lparr>data_m = \<lparr>buffer_m = nullptr, capacity_m = 0\<rparr>, size_m = 0\<rparr>
                else \<lparr>data_m = \<lparr>buffer_m = Ptr (Some (length (heap w))) 0, capacity_m = length ys\<rparr>,
                       size_m = length ys\<rparr>)"
    and "heap w' = (if ys = [] then heap w else heap w @ [Some (map Obj ys)])"
    and "new_calls w' = (if ys = [] then new_calls w else new_calls w @ [length ys * sizeof env])"
    and "trace w' = trace w @ map CopyCtor ys"
    and "dtor_log w' = dtor_log w"
    and "represents env w' tmp ys"
proof -
  note rb = represents_bounds[OF r]
  have all: "tmp = (if ys = [] then \<lparr>data_m = \<lparr>buffer_m = nullptr, capacity_m = 0\<rparr>, size_m = 0\<rparr>
                else \<lparr>data_m = \<lparr>buffer_m = Ptr (Some (length (heap w))) 0, capacity_m = length ys\<rparr>,
                       size_m = length ys\<rparr>) \<and>
     heap w' = (if ys = [] then heap w else heap w @ [Some (map Obj ys)]) \<and>
     new_calls w' = (if ys = [] then new_calls w else new_calls w @ [length ys * sizeof env]) \<and>
     trace w' = trace w @ map CopyCtor ys \<and> dtor_log w' = dtor_log w \<and> represents env w' tmp ys"
  proof (cases "ys = []")
    case True
    then have "size_m other = 0" using rb by simp
    then have "tmp = \<lparr>data_m = \<lparr>buffer_m = nullptr, capacity_m = 0\<rparr>, size_m = 0\<rparr>" "w' = w"
      using run
      by (simp_all add: Vector_copy_def RawMemory_ctor_def RawMemory_Allocate_def bind_def
          catch_rethrow_def uninitialized_copy_n_def)
    then show ?thesis using True rb by (simp add: represents_def)
  next
    case False
    define n where "n = length ys"
    define nb where "nb = length (heap w)"
    define m where "m = size_t (n * sizeof env) div sizeof env"
    have n0: "n \<noteq> 0" "size_m other = n" using False rb by (simp_all add: n_def)
    have "0 < length ys" using False by simp
    then have cpos: "capacity_m (data_m other) \<noteq> 0" using rb(2) by linarith
    from represents_block[OF r cpos] obtain b where
      b: "buffer_m (data_m other) = Ptr (Some b) 0" "b < length (heap w)"
        "heap w ! b = Some (map Obj ys @ replicate (capacity_m (data_m other) - length ys) Raw)"
      by blast
    let ?src = "map Obj ys @ replicate (capacity_m (data_m other) - length ys) Raw"
    from run obtain d w1 where
      alloc: "RawMemory_ctor env n w = Return d w1"
      and cp: "uninitialized_copy_n env (RawMemory_GetAddress (data_m other)) n (RawMemory_GetAddress d) w1 = Return () w'"
      and tmp: "tmp = \<lparr>data_m = d, size_m = n\<rparr>"
      unfolding Vector_copy_def n0(2)
      by (auto simp: bind_Return_iff catch_rethrow_Return_iff)
    note a = RawMemory_ctor_Return[OF alloc n0(1)]
    have d: "d = \<lparr>buffer_m = Ptr (Some nb) 0, capacity_m = n\<rparr>" using a(1) by (simp add: nb_def)
    have w1: "heap w1 = heap w @ [Some (replicate m Raw)]" "new_calls w1 = new_calls w @ [size_t (n * sizeof env)]"
      "dtor_log w1 = dtor_log w" "trace w1 = trace w"
      using a(2) by (simp_all add: m_def)
    have bn: "b \<noteq> nb" "b < length (heap w1)" "nb < length (heap w1)"
      using b(2) w1 by (simp_all add: nb_def)
    have hb1: "heap w1 ! b = Some ?src" using b w1 by (simp add: nth_append)
    have hn1: "heap w1 ! nb = Some (replicate m Raw)" using w1 by (simp add: nb_def)
    have cp': "uninitialized_loop (\<lambda>k. copy_construct env (ptr_add (Ptr (Some nb) 0) k) (ptr_add (Ptr (Some b) 0) k))
                 (Ptr (Some nb) 0) 0 (length ys) w1 = Return () w'"
      using cp by (simp add: uninitialized_copy_n_def RawMemory_GetAddress_def b(1) d n_def)
    have src: "0 + 0 + length ys \<le> length ?src" "\<forall>i<length ys. ?src ! (0 + 0 + i) = Obj (ys ! i)"
      by (simp_all add: nth_append)
    from uninit_copy_Return[OF bn hb1 hn1 src cp'] False
    have bnd: "0 + 0 + length ys \<le> length (replicate m Raw :: 'a slot list)"
      and w': "w' = w1\<lparr>heap := (heap w1)[nb := Some (take (0 + 0) (replicate m Raw) @ map Obj ys @ drop (0 + 0 + length ys) (replicate m Raw))],
                     trace := trace w1 @ map CopyCtor ys\<rparr>"
      by simp_all
    have nm: "n \<le> m" using bnd by (simp add: n_def)
    have ex: "size_t (n * sizeof env) = n * sizeof env"
      using nm rb(4) unfolding m_def by (rule slots_exact)
    then have mn: "m = n" using rb(4) by (simp add: m_def)
    have hw': "heap w' = heap w @ [Some (map Obj ys)]"
      using w' w1 mn by (simp add: nb_def n_def)
    have "represents env w' tmp ys"
    proof (rule representsI[where b = nb])
      show "size_m tmp = length ys" using tmp by (simp add: n_def)
      show "length ys \<le> capacity_m (data_m tmp)" using tmp d by (simp add: n_def)
      show "capacity_m (data_m tmp) * sizeof env \<le> PTRDIFF_MAX" using tmp d a(3) ex by simp
      show "0 < sizeof env" "sizeof env \<le> SIZE_MAX" using rb by simp_all
      show "buffer_m (data_m tmp) = Ptr (Some nb) 0" using tmp d by simp
      show "nb < length (heap w')" using hw' by (simp add: nb_def)
      show "heap w' ! nb = Some (map Obj ys @ replicate (capacity_m (data_m tmp) - length ys) Raw)"
        using hw' tmp d by (simp add: nb_def n_def)
      show "capacity_m (data_m tmp) \<noteq> 0" using tmp d n0 by simp
    qed
    then show ?thesis
      using False tmp d hw' w' w1 ex by (simp add: nb_def n_def)
  qed
  then show "tmp = (if ys = [] then \<lparr>data_m = \<lparr>buffer_m = nullptr, capacity_m = 0\<rparr>, size_m = 0\<rparr>
                else \<lparr>data_m = \<lparr>buffer_m = Ptr (Some (length (heap w))) 0, capacity_m = length ys\<rparr>,
                       size_m = length ys\<rparr>)"
    and "heap w' = (if ys = [] then heap w else heap w @ [Some (map Obj ys)])"
    and "new_calls w' = (if ys = [] then new_calls w else new_calls w @ [length ys * sizeof env])"
    and "trace w' = trace w @ map CopyCtor ys"
    and "dtor_log w' = dtor_log w"
    and "represents env w' tmp ys"
    by blast+
qed

section \<open>Copy assignment\<close>

lemma represents_frame:
  assumes r: "represents env w b ys"
    and len: "length (heap w) \<le> length (heap w')"
    and fr: "\<forall>k<length (heap w). Some k \<noteq> X \<longrightarrow> heap w' ! k = heap w ! k"
    and ne: "capacity_m (data_m b) \<noteq> 0 \<longrightarrow> blk (buffer_m (data_m b)) \<noteq> X"
  shows "represents env w' b ys"
proof (cases "capacity_m (data_m b) = 0")
  case True
  then show ?thesis using r by (simp add: represents_def)
next
  case False
  from represents_block[OF r False] obtain k where
    k: "buffer_m (data_m b) = Ptr (Some k) 0" "k < length (heap w)"
      "heap w ! k = Some (map Obj ys @ replicate (capacity_m (data_m b) - length ys) Raw)"
    by blast
  have "Some k \<noteq> X" using ne False k(1) by auto
  then have "heap w' ! k = heap w ! k" using fr k(2) by simp
  then show ?thesis
    using representsI[where b = k and w = w' and v = b and xs = ys and env = env]
      represents_bounds[OF r] k len False by simp
qed

lemma RawMemory_eq: "(m::RawMemory) = \<lparr>buffer_m = buffer_m m, capacity_m = capacity_m m\<rparr>"
  by (cases m) simp

lemma copy_assign_grow:
  assumes ra: "represents env w a xs" and rb: "represents env w b ys" and sep: "separate a b"
    and run: "Vector_copy_assign env (Other b) (a, w) = Return u (a', w')"
    and True: "capacity_m (data_m a) < length ys"
  shows "represents env w' a' ys \<and> represents env w' b ys \<and> separate a' b \<and>
     (\<exists>w1. Vector_copy env b w = Return a' w1 \<and> Vector_dtor a w1 = Return () w')"
proof -
  note A = represents_bounds[OF ra]
  note B = represents_bounds[OF rb]
    from True have ne: "ys \<noteq> []" by auto
  from run True obtain tmp w1 where
    cp: "Vector_copy env b w = Return tmp w1"
    and dt: "Vector_dtor a w1 = Return () w'"
    and a': "a' = tmp"
    unfolding Vector_copy_assign_def
    by (auto simp: RawMemory_Capacity_def B(1) split: outcome.splits)
  note C = Vector_copy_Return[OF rb cp]
  have tmp: "tmp = \<lparr>data_m = \<lparr>buffer_m = Ptr (Some (length (heap w))) 0, capacity_m = length ys\<rparr>,
                     size_m = length ys\<rparr>"
    using C(1) ne by simp
  have h1: "heap w1 = heap w @ [Some (map Obj ys)]" using C(2) ne by simp
  have ka: "blk (buffer_m (data_m a)) = Some k \<Longrightarrow> k < length (heap w)" for k
    by (rule represents_blk_less[OF ra])
  have kb: "blk (buffer_m (data_m b)) = Some k \<Longrightarrow> k < length (heap w)" for k
    by (rule represents_blk_less[OF rb])
  have ra1: "represents env w1 a xs"
    using ka[of "length (heap w)"]
    by (intro represents_frame[OF ra, where X = "Some (length (heap w))"]) (auto simp: h1 nth_append)
  have rb1: "represents env w1 b ys"
    using kb[of "length (heap w)"]
    by (intro represents_frame[OF rb, where X = "Some (length (heap w))"]) (auto simp: h1 nth_append)
  from Vector_dtor_Return[OF ra1] dt have hw': "heap w' = released a (heap w1)"
    by auto
  have cb: "capacity_m (data_m b) \<noteq> 0" using B(2) ne by (cases ys) auto
  have r1: "represents env w' tmp ys"
  proof (rule represents_frame[OF C(6), where X = "blk (buffer_m (data_m a))"])
    show "length (heap w1) \<le> length (heap w')" using hw' by simp
    show "\<forall>k<length (heap w1). Some k \<noteq> blk (buffer_m (data_m a)) \<longrightarrow> heap w' ! k = heap w1 ! k"
      using hw' by (simp add: released_frame)
    show "capacity_m (data_m tmp) \<noteq> 0 \<longrightarrow> blk (buffer_m (data_m tmp)) \<noteq> blk (buffer_m (data_m a))"
      using tmp ka[of "length (heap w)"] by auto
  qed
  have r2: "represents env w' b ys"
  proof (rule represents_frame[OF rb1, where X = "blk (buffer_m (data_m a))"])
    show "length (heap w1) \<le> length (heap w')" using hw' by simp
    show "\<forall>k<length (heap w1). Some k \<noteq> blk (buffer_m (data_m a)) \<longrightarrow> heap w' ! k = heap w1 ! k"
      using hw' by (simp add: released_frame)
    show "capacity_m (data_m b) \<noteq> 0 \<longrightarrow> blk (buffer_m (data_m b)) \<noteq> blk (buffer_m (data_m a))"
    proof (cases "capacity_m (data_m a) = 0")
      case True
      then have "blk (buffer_m (data_m a)) = None" using A(6) by (simp add: nullptr_def)
      moreover from represents_block[OF rb cb] obtain k where "buffer_m (data_m b) = Ptr (Some k) 0"
        by blast
      then have "blk (buffer_m (data_m b)) \<noteq> None" by simp
      ultimately show ?thesis by simp
    next
      case False
      then show ?thesis using sep cb by (auto simp: separate_def)
    qed
  qed
  have "separate tmp b"
    using kb[of "length (heap w)"] by (simp add: tmp separate_def) metis
  then show ?thesis
    using r1 r2 a' cp dt by simp
qed

lemma copy_assign_in_place:
  assumes ra: "represents env w a xs" and rb: "represents env w b ys" and sep: "separate a b"
    and run: "Vector_copy_assign env (Other b) (a, w) = Return u (a', w')"
    and False: "\<not> capacity_m (data_m a) < length ys"
  shows "represents env w' a' ys \<and> represents env w' b ys \<and> separate a' b \<and>
           data_m a' = data_m a \<and> new_calls w' = new_calls w \<and>
           trace w' = trace w @
             map (\<lambda>(y, x). CopyAssign y x) (zip (take (length ys) xs) (take (length xs) ys)) @
             map CopyCtor (drop (length xs) ys) \<and>
           dtor_log w' = dtor_log w @
             map (\<lambda>j. ptr_add (Vector_begin a) (length ys + j)) [0..<length xs - length ys]"
proof -
  note A = represents_bounds[OF ra]
  note B = represents_bounds[OF rb]
  from False have le: "length ys \<le> capacity_m (data_m a)" by simp
    let ?m = "min (length xs) (length ys)"
  let ?first = "assign_loop env (data_m a) (data_m b) 0 ?m"
  let ?second = "if length xs < length ys
         then uninitialized_copy_n env (ptr_add (RawMemory_GetAddress (data_m b)) (length xs))
                (length ys - length xs) (ptr_add (RawMemory_GetAddress (data_m a)) (length xs))
         else destroy_n (ptr_add (RawMemory_GetAddress (data_m a)) (length ys)) (length xs - length ys)"
  have E: "Vector_copy_assign env (Other b) (a, w) =
     (case bind ?first (\<lambda>_. ?second) w of
        Return _ w' \<Rightarrow> Return () (a\<lparr>size_m := length ys\<rparr>, w')
      | Throw e w' \<Rightarrow> Throw e (a, w')
      | Fault \<Rightarrow> Fault)"
    unfolding Vector_copy_assign_def using False
    by (simp add: RawMemory_Capacity_def A(1) B(1) Let_def cong: outcome.case_cong)
  from run obtain w1 where
    f: "?first w = Return () w1" and s: "?second w1 = Return () w'"
    and a': "a' = a\<lparr>size_m := length ys\<rparr>"
    unfolding E case_outcome_Return bind_Return_iff by auto
  have fin: "represents env w' a' ys \<and> represents env w' b ys \<and> new_calls w' = new_calls w \<and>
         trace w' = trace w @
           map (\<lambda>(y, x). CopyAssign y x) (zip (take (length ys) xs) (take (length xs) ys)) @
           map CopyCtor (drop (length xs) ys) \<and>
         dtor_log w' = dtor_log w @
           map (\<lambda>j. ptr_add (Vector_begin a) (length ys + j)) [0..<length xs - length ys]"
  proof (cases "capacity_m (data_m a) = 0")
    case True
    then have e: "ys = []" "xs = []" using le A(2) by auto
    have "w1 = w" using f e by simp
    moreover have "w' = w1" using s e by simp
    moreover have "a' = a" using a' e A(1) by simp
    ultimately show ?thesis using ra rb e by simp
  next
    case ca: False
    from represents_block[OF ra ca] obtain ab where
      ab: "buffer_m (data_m a) = Ptr (Some ab) 0" "ab < length (heap w)"
        "heap w ! ab = Some (map Obj xs @ replicate (capacity_m (data_m a) - length xs) Raw)"
      by blast
    let ?dst = "map Obj xs @ replicate (capacity_m (data_m a) - length xs) Raw"
    have da: "data_m a = \<lparr>buffer_m = Ptr (Some ab) 0, capacity_m = capacity_m (data_m a)\<rparr>"
      using ab(1) by (cases "data_m a") simp
    have ga: "RawMemory_GetAddress (data_m a) = Ptr (Some ab) 0" "Vector_begin a = Ptr (Some ab) 0"
      using ab(1) by (simp_all add: RawMemory_GetAddress_def Vector_begin_def)
    have goal: "heap w' = (heap w)[ab := Some (map Obj ys @ replicate (capacity_m (data_m a) - length ys) Raw)] \<and>
         new_calls w' = new_calls w \<and>
         trace w' = trace w @
           map (\<lambda>(y, x). CopyAssign y x) (zip (take (length ys) xs) (take (length xs) ys)) @
           map CopyCtor (drop (length xs) ys) \<and>
         dtor_log w' = dtor_log w @
           map (\<lambda>j. Ptr (Some ab) (length ys + j)) [0..<length xs - length ys]"
    proof (cases "ys = []")
      case True
      have "w1 = w" using f True by simp
      have bnd: "0 + length xs \<le> length ?dst" using A(2) by simp
      have "destroy_n (Ptr (Some ab) 0) (length xs) w = Return () w'" using s True by (simp add: ga \<open>w1 = w\<close>)
      from destroy_n_Return(1)[OF ab(2,3) bnd this]
      have "w' = w\<lparr>heap := (heap w)[ab := Some (take 0 ?dst @ replicate (length xs) Raw @ drop (0 + length xs) ?dst)],
                    dtor_log := dtor_log w @ map (\<lambda>j. Ptr (Some ab) (0 + j)) [0..<length xs]\<rparr>"
        by (simp add: ga \<open>w1 = w\<close>)
      then show ?thesis
        using True A(2) by (simp add: replicate_add[symmetric] del: upt_Suc)
    next
      case False
      then have "0 < length ys" by simp
      then have cb: "capacity_m (data_m b) \<noteq> 0" using B(2) by linarith
      from represents_block[OF rb cb] obtain bb where
        bb: "buffer_m (data_m b) = Ptr (Some bb) 0" "bb < length (heap w)"
          "heap w ! bb = Some (map Obj ys @ replicate (capacity_m (data_m b) - length ys) Raw)"
        by blast
      let ?src = "map Obj ys @ replicate (capacity_m (data_m b) - length ys) Raw"
      have db: "data_m b = \<lparr>buffer_m = Ptr (Some bb) 0, capacity_m = capacity_m (data_m b)\<rparr>"
        using bb(1) by (cases "data_m b") simp
      have gb: "RawMemory_GetAddress (data_m b) = Ptr (Some bb) 0"
        using bb(1) by (simp add: RawMemory_GetAddress_def)
      have ne: "bb \<noteq> ab" using sep ca cb ab(1) bb(1) by (auto simp: separate_def)
      let ?zs = "take ?m ys"
      let ?os = "take ?m xs"
      have lz: "length ?zs = ?m" "length ?os = length ?zs" by simp_all
      have f': "assign_loop env \<lparr>buffer_m = Ptr (Some ab) 0, capacity_m = capacity_m (data_m a)\<rparr>
                  \<lparr>buffer_m = Ptr (Some bb) 0, capacity_m = capacity_m (data_m b)\<rparr> 0 (length ?zs) w = Return () w1"
        using f unfolding lz(1) by (subst da[symmetric], subst db[symmetric])
      have p1: "0 + length ?zs \<le> length ?src" "\<forall>i<length ?zs. ?src ! (0 + i) = Obj (?zs ! i)"
        "0 + length ?zs \<le> length ?dst" "\<forall>i<length ?zs. ?dst ! (0 + i) = Obj (?os ! i)"
        by (auto simp: nth_append)
      from assign_loop_trace_Return[OF ne bb(2) ab(2) bb(3) ab(3) p1 lz(2) f']
      have w1: "w1 = w\<lparr>heap := (heap w)[ab := Some (take 0 ?dst @ map Obj ?zs @ drop (0 + length ?zs) ?dst)],
                       trace := trace w @ map (\<lambda>(y, x). CopyAssign y x) (zip ?os ?zs)\<rparr>" .
      let ?d1 = "map Obj ?zs @ drop ?m ?dst"
      have h1: "heap w1 = (heap w)[ab := Some ?d1]" using w1 by simp
      have z: "zip ?os ?zs = zip (take (length ys) xs) (take (length xs) ys)"
        by (auto simp: list_eq_iff_nth_eq)
      show ?thesis
      proof (cases "length xs < length ys")
        case True
        then have m: "?m = length xs" by simp
        let ?ts = "drop (length xs) ys"
        have b1: "bb < length (heap w1)" "ab < length (heap w1)"
          "heap w1 ! bb = Some ?src" "heap w1 ! ab = Some ?d1"
          using h1 ab(2) bb(2,3) ne by simp_all
        have s': "uninitialized_loop (\<lambda>k. copy_construct env (ptr_add (Ptr (Some ab) (length xs)) k) (ptr_add (Ptr (Some bb) (length xs)) k))
                    (Ptr (Some ab) (length xs)) 0 (length ?ts) w1 = Return () w'"
          using s True by (simp add: uninitialized_copy_n_def ga gb)
        have p2: "length xs + 0 + length ?ts \<le> length ?src"
          "\<forall>i<length ?ts. ?src ! (length xs + 0 + i) = Obj (?ts ! i)"
          using True by (auto simp: nth_append)
        from uninit_copy_Return[OF ne b1(1,2,3,4) p2 s']
        have w': "w' = w1\<lparr>heap := (heap w1)[ab := Some (take (length xs + 0) ?d1 @ map Obj ?ts @ drop (length xs + 0 + length ?ts) ?d1)],
                        trace := trace w1 @ map CopyCtor ?ts\<rparr>"
          by simp
        have eq: "take (length xs + 0) ?d1 @ map Obj ?ts @ drop (length xs + 0 + length ?ts) ?d1 =
              map Obj ys @ replicate (capacity_m (data_m a) - length ys) Raw"
          using True le A(2) by (simp add: m take_map[symmetric] drop_map[symmetric] min_def flip: map_append)
        show ?thesis
          using w'[unfolded eq] w1 z True by simp
      next
        case False
        then have m: "?m = length ys" by simp
        have b1: "ab < length (heap w1)" "heap w1 ! ab = Some ?d1"
          using h1 ab(2) by simp_all
        have bnd: "length ys + (length xs - length ys) \<le> length ?d1"
          using False A(2) by (simp add: m)
        have "destroy_n (Ptr (Some ab) (length ys)) (length xs - length ys) w1 = Return () w'"
          using s False by (simp add: ga)
        from destroy_n_Return(1)[OF b1 bnd this]
        have w': "w' = w1\<lparr>heap := (heap w1)[ab := Some (take (length ys) ?d1 @ replicate (length xs - length ys) Raw @ drop (length ys + (length xs - length ys)) ?d1)],
                        dtor_log := dtor_log w1 @ map (\<lambda>j. Ptr (Some ab) (length ys + j)) [0..<length xs - length ys]\<rparr>"
          by (simp add: ga)
        have eq: "take (length ys) ?d1 @ replicate (length xs - length ys) Raw @ drop (length ys + (length xs - length ys)) ?d1 =
              map Obj ys @ replicate (capacity_m (data_m a) - length ys) Raw"
          using False A(2) by (simp add: m min_def replicate_add[symmetric])
        show ?thesis
          using w'[unfolded eq] w1 z False by (simp del: upt_Suc)
      qed
    qed
    have r1: "represents env w' a' ys"
    proof (rule representsI[where b = ab])
      show "size_m a' = length ys" using a' by simp
      show "length ys \<le> capacity_m (data_m a')" using a' le by simp
      show "capacity_m (data_m a') * sizeof env \<le> PTRDIFF_MAX" using a' A by simp
      show "0 < sizeof env" "sizeof env \<le> SIZE_MAX" using A by simp_all
      show "buffer_m (data_m a') = Ptr (Some ab) 0" using a' ab by simp
      show "ab < length (heap w')" using goal ab by simp
      show "heap w' ! ab = Some (map Obj ys @ replicate (capacity_m (data_m a') - length ys) Raw)"
        using goal ab a' by simp
      show "capacity_m (data_m a') \<noteq> 0" using a' ca by simp
    qed
    have r2: "represents env w' b ys"
    proof (rule represents_frame[OF rb, where X = "Some ab"])
      show "length (heap w) \<le> length (heap w')" using goal by simp
      show "\<forall>k<length (heap w). Some k \<noteq> Some ab \<longrightarrow> heap w' ! k = heap w ! k" using goal by simp
      show "capacity_m (data_m b) \<noteq> 0 \<longrightarrow> blk (buffer_m (data_m b)) \<noteq> Some ab"
        using sep ca ab(1) by (auto simp: separate_def)
    qed
    show ?thesis using r1 r2 goal ga by simp
  qed
  have "separate a' b" using sep a' by (simp add: separate_def)
  then show ?thesis using fin a' by simp
qed

section \<open>Running the model on concrete states\<close>

lemma destroy_loop_numeral:
  "destroy_loop first k (numeral n) w =
     (case destroy_at (ptr_add first k) w of
        Return _ w' \<Rightarrow> destroy_loop first (Suc k) (pred_numeral n) w'
      | Throw e w' \<Rightarrow> Throw e w'
      | Fault \<Rightarrow> Fault)"
  by (simp add: numeral_eq_Suc)

lemma uninitialized_loop_numeral:
  "uninitialized_loop ctor d_first k (numeral n) w =
     (case ctor k w of
        Return _ w' \<Rightarrow> uninitialized_loop ctor d_first (Suc k) (pred_numeral n) w'
      | Throw e w' \<Rightarrow>
          (case destroy_n d_first k w' of
             Return _ w'' \<Rightarrow> Throw e w''
           | Throw e' w'' \<Rightarrow> Throw e' w''
           | Fault \<Rightarrow> Fault)
      | Fault \<Rightarrow> Fault)"
  by (simp add: numeral_eq_Suc)

lemma move_loop_numeral:
  "move_loop env first d_first k (numeral n) w =
     (case move_assign env (ptr_add d_first k) (ptr_add first k) w of
        Return _ w' \<Rightarrow> move_loop env first d_first (Suc k) (pred_numeral n) w'
      | Throw e w' \<Rightarrow> Throw e w'
      | Fault \<Rightarrow> Fault)"
  by (simp add: numeral_eq_Suc)

lemma move_backward_numeral:
  "move_backward env first (numeral n) d_first w =
     (case move_assign env (ptr_add d_first (pred_numeral n)) (ptr_add first (pred_numeral n)) w of
        Return _ w' \<Rightarrow> move_backward env first (pred_numeral n) d_first w'
      | Throw e w' \<Rightarrow> Throw e w'
      | Fault \<Rightarrow> Fault)"
  by (simp add: numeral_eq_Suc)

lemma objects_numeral:
  "objects w p (numeral n) =
     (case obj_at w p of
        None \<Rightarrow> None
      | Some x \<Rightarrow> (case objects w (ptr_add p 1) (pred_numeral n) of None \<Rightarrow> None | Some xs \<Rightarrow> Some (x # xs)))"
  by (simp add: numeral_eq_Suc)

lemma replicate_numeral_unfold:
  "replicate (numeral n) x = x # replicate (pred_numeral n) x"
  by (simp add: numeral_eq_Suc)

lemmas model_defs =
  destroy_loop_numeral uninitialized_loop_numeral move_loop_numeral move_backward_numeral
  objects_numeral replicate_numeral_unfold
  bind_def catch_rethrow_def catch_all_def size_t_def size_t_sub_def SIZE_MAX_def PTRDIFF_MAX_def
  nullptr_def ptr_add_def ptr_diff_def ptr_le_def ptr_less_def
  allocation_fails_def operator_new_def operator_delete_def block_at_def slot_at_def obj_at_def put_slot_def
  call_op_def call_move_ctor_def place_def construct_at_def construct_tmp_def copy_construct_def
  move_construct_def default_construct_def value_construct_def copy_assign_def move_assign_def
  move_assign_tmp_def destroy_at_def destroy_n_def uninitialized_copy_n_def uninitialized_move_n_def
  uninitialized_default_construct_n_def uninitialized_value_construct_n_def std_move_def
  RawMemory_default_def RawMemory_Allocate_def RawMemory_Deallocate_def RawMemory_ctor_def RawMemory_dtor_def
  RawMemory_Swap_def RawMemory_GetAddress_def RawMemory_Capacity_def RawMemory_plus_def RawMemory_index_def
  Vector_default_def Vector_Size_def Vector_Capacity_def Vector_begin_def Vector_end_def Vector_sized_def
  Vector_copy_def Vector_move_def Vector_dtor_def Vector_Swap_def with_this_def relocate_n_def
  Vector_Reserve_def Vector_Resize_def Vector_PopBack_def Vector_index_def Emplace_grow_def Emplace_shift_def
  Vector_Emplace_def Vector_EmplaceBack_def Vector_PushBack_def Vector_Insert_def Vector_Erase_def
  Vector_copy_assign_def Vector_move_assign_def elements_def
  never_def throw_at_def elem_type_def empty_world_def mk_world_def vec_def represents_def vector_inv_def Let_def

section \<open>Calls that return\<close>

lemma call_op_total: "no_throw env \<Longrightarrow> call_op env op w = Return () (w\<lparr>trace := trace w @ [op]\<rparr>)"
  by (simp add: call_op_def no_throw_def)

lemma call_move_ctor_total:
  "no_throw env \<Longrightarrow> call_move_ctor env x w = Return () (w\<lparr>trace := trace w @ [MoveCtor x]\<rparr>)"
  by (simp add: call_move_ctor_def call_op_total)

lemma call_ctor_total:
  "no_throw env \<Longrightarrow> call_ctor env a w = Return () (w\<lparr>trace := trace w @ [ctor_op a]\<rparr>)"
  by (cases a) (simp_all add: call_op_total call_move_ctor_total)

lemma slot_at_trace [simp]: "slot_at (w\<lparr>trace := t\<rparr>) p = slot_at w p"
  by (cases "blk p") (simp_all add: slot_at_def block_at_def)

lemma obj_at_trace [simp]: "obj_at (w\<lparr>trace := t\<rparr>) p = obj_at w p"
  by (simp add: obj_at_def)

lemma slot_at_dtor_log [simp]: "slot_at (w\<lparr>dtor_log := t\<rparr>) p = slot_at w p"
  by (cases "blk p") (simp_all add: slot_at_def block_at_def)

lemma obj_at_dtor_log [simp]: "obj_at (w\<lparr>dtor_log := t\<rparr>) p = obj_at w p"
  by (simp add: obj_at_def)

lemma slot_at_put_slot:
  "slot_at (put_slot p s w) q =
     (if slot_at w p \<noteq> None \<and> q = p then Some s else slot_at w q)"
proof (cases p)
  case (Ptr pb pi)
  show ?thesis
  proof (cases pb)
    case None
    then show ?thesis using Ptr by (simp add: put_slot_def slot_at_def)
  next
    case (Some b)
    show ?thesis
    proof (cases "block_at w b")
      case None
      then show ?thesis using Ptr Some by (simp add: put_slot_def slot_at_def)
    next
      case bl: (Some ss)
      then have b: "b < length (heap w)" "heap w ! b = Some ss"
        by (auto simp: block_at_def split: if_splits)
      have w': "put_slot p s w = w\<lparr>heap := (heap w)[b := Some (ss[pi := s])]\<rparr>"
        using Ptr Some bl by (simp add: put_slot_def)
      show ?thesis
      proof (cases q)
        case q: (Ptr qb qi)
        show ?thesis
        proof (cases "qb = Some b")
          case True
          then show ?thesis
            using Ptr Some q b w' by (auto simp: slot_at_def block_at_def nth_list_update)
        next
          case False
          then show ?thesis
            using Ptr Some q b w'
            by (cases qb) (auto simp: slot_at_def block_at_def nth_list_update)
        qed
      qed
    qed
  qed
qed

lemma obj_at_put_Obj:
  "obj_at (put_slot p (Obj x) w) q = (if slot_at w p \<noteq> None \<and> q = p then Some x else obj_at w q)"
  by (simp add: obj_at_def slot_at_put_slot)

lemma obj_at_put_Raw:
  "obj_at (put_slot p Raw w) q = (if slot_at w p \<noteq> None \<and> q = p then None else obj_at w q)"
  by (simp add: obj_at_def slot_at_put_slot)

lemma obj_slot: "obj_at w p \<noteq> None \<Longrightarrow> slot_at w p \<noteq> None"
  by (auto simp: obj_at_def split: option.splits)

lemma keeps_refl [simp]: "keeps w w"
  by (simp add: keeps_def)

lemma keeps_trans: "keeps w w1 \<Longrightarrow> keeps w1 w2 \<Longrightarrow> keeps w w2"
  by (simp add: keeps_def)

lemma keeps_trace [simp]: "keeps w (w\<lparr>trace := t\<rparr>)"
  by (simp add: keeps_def)

lemma keeps_put_Obj: "keeps w (put_slot p (Obj x) w)"
  by (simp add: keeps_def slot_at_put_slot obj_at_put_Obj)

lemma keepsD:
  "keeps w w' \<Longrightarrow> slot_at w p \<noteq> None \<Longrightarrow> slot_at w' p \<noteq> None"
  "keeps w w' \<Longrightarrow> obj_at w p \<noteq> None \<Longrightarrow> obj_at w' p \<noteq> None"
  by (simp_all add: keeps_def)

lemma place_total:
  "slot_at w p \<noteq> None \<Longrightarrow> place p x w = Return () (put_slot p (Obj x) w)"
  by (auto simp: place_def)

lemma copy_construct_total:
  assumes "no_throw env" "obj_at w src \<noteq> None" "slot_at w dst \<noteq> None"
  shows "\<exists>w'. copy_construct env dst src w = Return () w' \<and> keeps w w'"
proof -
  from assms(2) obtain x where x: "obj_at w src = Some x" by auto
  let ?w1 = "w\<lparr>trace := trace w @ [CopyCtor x]\<rparr>"
  have "copy_construct env dst src w = Return () (put_slot dst (Obj x) ?w1)"
    using x assms(1,3) by (simp add: copy_construct_def call_op_total place_total)
  moreover have "keeps w (put_slot dst (Obj x) ?w1)"
    by (rule keeps_trans[OF keeps_trace keeps_put_Obj])
  ultimately show ?thesis by blast
qed

lemma move_construct_total:
  assumes "no_throw env" "obj_at w src \<noteq> None" "slot_at w dst \<noteq> None"
  shows "\<exists>w'. move_construct env dst src w = Return () w' \<and> keeps w w'"
proof -
  from assms(2) obtain x where x: "obj_at w src = Some x" by auto
  let ?w1 = "w\<lparr>trace := trace w @ [MoveCtor x]\<rparr>"
  let ?w2 = "put_slot dst (Obj x) ?w1"
  have "move_construct env dst src w = Return () (put_slot src (Obj (moved_from env x)) ?w2)"
    using x assms(1,3) by (simp add: move_construct_def call_move_ctor_total place_total)
  moreover have "keeps w (put_slot src (Obj (moved_from env x)) ?w2)"
    by (rule keeps_trans[OF keeps_trans[OF keeps_trace keeps_put_Obj] keeps_put_Obj])
  ultimately show ?thesis by blast
qed

lemma default_construct_total:
  assumes "no_throw env" "slot_at w dst \<noteq> None"
  shows "\<exists>w'. default_construct env dst w = Return () w' \<and> keeps w w'"
proof -
  let ?w1 = "w\<lparr>trace := trace w @ [DefaultCtor]\<rparr>"
  have "default_construct env dst w = Return () (put_slot dst (Obj (default_init env)) ?w1)"
    using assms by (simp add: default_construct_def call_op_total place_total)
  moreover have "keeps w (put_slot dst (Obj (default_init env)) ?w1)"
    by (rule keeps_trans[OF keeps_trace keeps_put_Obj])
  ultimately show ?thesis by blast
qed

lemma construct_at_total:
  assumes "no_throw env" "slot_at w p \<noteq> None"
  shows "\<exists>w'. construct_at env p a w = Return () w' \<and> keeps w w'"
proof -
  let ?w1 = "w\<lparr>trace := trace w @ [ctor_op a]\<rparr>"
  have "construct_at env p a w = Return () (put_slot p (Obj (arg_value a)) ?w1)"
    using assms by (simp add: construct_at_def call_ctor_total place_total)
  moreover have "keeps w (put_slot p (Obj (arg_value a)) ?w1)"
    by (rule keeps_trans[OF keeps_trace keeps_put_Obj])
  ultimately show ?thesis by blast
qed

lemma construct_tmp_total:
  "no_throw env \<Longrightarrow> construct_tmp env a w = Return (arg_value a) (w\<lparr>trace := trace w @ [ctor_op a]\<rparr>)"
  by (simp add: construct_tmp_def call_ctor_total)

lemma copy_assign_total:
  assumes "no_throw env" "obj_at w dst \<noteq> None" "obj_at w src \<noteq> None"
  shows "\<exists>w'. copy_assign env dst src w = Return () w' \<and> keeps w w'"
proof -
  from assms(2,3) obtain y x where x: "obj_at w dst = Some y" "obj_at w src = Some x" by auto
  let ?w1 = "w\<lparr>trace := trace w @ [CopyAssign y x]\<rparr>"
  have "slot_at w dst \<noteq> None" using assms(2) by (rule obj_slot)
  then have "copy_assign env dst src w = Return () (put_slot dst (Obj x) ?w1)"
    using x assms(1) by (simp add: copy_assign_def call_op_total place_total)
  moreover have "keeps w (put_slot dst (Obj x) ?w1)"
    by (rule keeps_trans[OF keeps_trace keeps_put_Obj])
  ultimately show ?thesis by blast
qed

lemma move_assign_total:
  assumes "no_throw env" "obj_at w dst \<noteq> None" "obj_at w src \<noteq> None"
  shows "\<exists>w'. move_assign env dst src w = Return () w' \<and> keeps w w'"
proof -
  from assms(2,3) obtain y x where x: "obj_at w dst = Some y" "obj_at w src = Some x" by auto
  let ?w1 = "w\<lparr>trace := trace w @ [MoveAssign y x]\<rparr>"
  let ?w2 = "put_slot src (Obj (moved_from env x)) ?w1"
  have "move_assign env dst src w = Return () (put_slot dst (Obj x) ?w2)"
    using x assms(1) by (simp add: move_assign_def call_op_total)
  moreover have "keeps w (put_slot dst (Obj x) ?w2)"
    by (rule keeps_trans[OF keeps_trans[OF keeps_trace keeps_put_Obj] keeps_put_Obj])
  ultimately show ?thesis by blast
qed

lemma move_assign_tmp_total:
  assumes "no_throw env" "obj_at w dst \<noteq> None"
  shows "\<exists>w'. move_assign_tmp env dst x w = Return () w' \<and> keeps w w'"
proof -
  from assms(2) obtain y where y: "obj_at w dst = Some y" by auto
  let ?w1 = "w\<lparr>trace := trace w @ [MoveAssign y x]\<rparr>"
  have "slot_at w dst \<noteq> None" using assms(2) by (rule obj_slot)
  then have "move_assign_tmp env dst x w = Return () (put_slot dst (Obj x) ?w1)"
    using y assms(1) by (simp add: move_assign_tmp_def call_op_total place_total)
  moreover have "keeps w (put_slot dst (Obj x) ?w1)"
    by (rule keeps_trans[OF keeps_trace keeps_put_Obj])
  ultimately show ?thesis by blast
qed

lemma uninitialized_loop_total:
  assumes step: "\<And>k w1. P k w1 \<Longrightarrow> \<exists>w2. ctor k w1 = Return () w2 \<and> keeps w1 w2"
    and mono: "\<And>k w1 w2. keeps w1 w2 \<Longrightarrow> P k w1 \<Longrightarrow> P k w2"
  shows "\<forall>j<n. P (k + j) w \<Longrightarrow> \<exists>w'. uninitialized_loop ctor d k n w = Return () w' \<and> keeps w w'"
proof (induction n arbitrary: k w)
  case 0
  then show ?case by simp
next
  case (Suc n)
  have "P k w" using Suc.prems by (metis add.right_neutral zero_less_Suc)
  from step[OF this] obtain w1 where w1: "ctor k w = Return () w1" "keeps w w1" by blast
  have "\<forall>j<n. P (Suc k + j) w1"
  proof (intro allI impI)
    fix j assume "j < n"
    then have "P (k + Suc j) w" using Suc.prems by (metis Suc_less_eq)
    then show "P (Suc k + j) w1" using mono[OF w1(2)] by simp
  qed
  from Suc.IH[OF this] obtain w' where "uninitialized_loop ctor d (Suc k) n w1 = Return () w'" "keeps w1 w'"
    by blast
  then show ?case using w1 by (auto intro: keeps_trans)
qed

lemma uninitialized_copy_n_total:
  assumes "no_throw env"
    and "\<forall>j<n. obj_at w (ptr_add first j) \<noteq> None \<and> slot_at w (ptr_add d j) \<noteq> None"
  shows "\<exists>w'. uninitialized_copy_n env first n d w = Return () w' \<and> keeps w w'"
  unfolding uninitialized_copy_n_def
  by (rule uninitialized_loop_total[where P = "\<lambda>k w. obj_at w (ptr_add first k) \<noteq> None \<and> slot_at w (ptr_add d k) \<noteq> None"])
     (use assms in \<open>auto intro: copy_construct_total dest: keepsD\<close>)

lemma uninitialized_move_n_total:
  assumes "no_throw env"
    and "\<forall>j<n. obj_at w (ptr_add first j) \<noteq> None \<and> slot_at w (ptr_add d j) \<noteq> None"
  shows "\<exists>w'. uninitialized_move_n env first n d w = Return () w' \<and> keeps w w'"
  unfolding uninitialized_move_n_def
  by (rule uninitialized_loop_total[where P = "\<lambda>k w. obj_at w (ptr_add first k) \<noteq> None \<and> slot_at w (ptr_add d k) \<noteq> None"])
     (use assms in \<open>auto intro: move_construct_total dest: keepsD\<close>)

lemma uninitialized_default_construct_n_total:
  assumes "no_throw env" and "\<forall>j<n. slot_at w (ptr_add d j) \<noteq> None"
  shows "\<exists>w'. uninitialized_default_construct_n env d n w = Return () w' \<and> keeps w w'"
  unfolding uninitialized_default_construct_n_def
  by (rule uninitialized_loop_total[where P = "\<lambda>k w. slot_at w (ptr_add d k) \<noteq> None"])
     (use assms in \<open>auto intro: default_construct_total dest: keepsD\<close>)

lemma relocate_n_total:
  assumes "no_throw env"
    and "\<forall>j<n. obj_at w (ptr_add first j) \<noteq> None \<and> slot_at w (ptr_add d j) \<noteq> None"
  shows "\<exists>w'. relocate_n env first n d w = Return () w' \<and> keeps w w'"
  using uninitialized_copy_n_total[OF assms] uninitialized_move_n_total[OF assms]
  by (simp add: relocate_n_def)

lemma move_loop_total:
  assumes "no_throw env"
  shows "\<forall>j<n. obj_at w (ptr_add first (k + j)) \<noteq> None \<and> obj_at w (ptr_add d (k + j)) \<noteq> None \<Longrightarrow>
     \<exists>w'. move_loop env first d k n w = Return () w' \<and> keeps w w'"
proof (induction n arbitrary: k w)
  case 0
  then show ?case by simp
next
  case (Suc n)
  have "obj_at w (ptr_add d k) \<noteq> None" "obj_at w (ptr_add first k) \<noteq> None"
    using Suc.prems by (metis add.right_neutral zero_less_Suc)+
  from move_assign_total[OF assms this] obtain w1 where
    w1: "move_assign env (ptr_add d k) (ptr_add first k) w = Return () w1" "keeps w w1" by blast
  have "\<forall>j<n. obj_at w1 (ptr_add first (Suc k + j)) \<noteq> None \<and> obj_at w1 (ptr_add d (Suc k + j)) \<noteq> None"
  proof (intro allI impI)
    fix j assume "j < n"
    then have "obj_at w (ptr_add first (k + Suc j)) \<noteq> None \<and> obj_at w (ptr_add d (k + Suc j)) \<noteq> None"
      using Suc.prems by (metis Suc_less_eq)
    then show "obj_at w1 (ptr_add first (Suc k + j)) \<noteq> None \<and> obj_at w1 (ptr_add d (Suc k + j)) \<noteq> None"
      using keepsD(2)[OF w1(2)] by simp
  qed
  from Suc.IH[OF this] obtain w' where "move_loop env first d (Suc k) n w1 = Return () w'" "keeps w1 w'"
    by blast
  then show ?case using w1 by (auto intro: keeps_trans)
qed

lemma move_backward_total:
  assumes "no_throw env"
  shows "\<forall>j<n. obj_at w (ptr_add first j) \<noteq> None \<and> obj_at w (ptr_add d j) \<noteq> None \<Longrightarrow>
     \<exists>w'. move_backward env first n d w = Return () w' \<and> keeps w w'"
proof (induction n arbitrary: w)
  case 0
  then show ?case by simp
next
  case (Suc n)
  have "obj_at w (ptr_add d n) \<noteq> None" "obj_at w (ptr_add first n) \<noteq> None"
    using Suc.prems by simp_all
  from move_assign_total[OF assms this] obtain w1 where
    w1: "move_assign env (ptr_add d n) (ptr_add first n) w = Return () w1" "keeps w w1" by blast
  have "\<forall>j<n. obj_at w1 (ptr_add first j) \<noteq> None \<and> obj_at w1 (ptr_add d j) \<noteq> None"
    using Suc.prems keepsD(2)[OF w1(2)] by simp
  from Suc.IH[OF this] obtain w' where "move_backward env first n d w1 = Return () w'" "keeps w1 w'"
    by blast
  then show ?case using w1 by (auto intro: keeps_trans)
qed

lemma assign_loop_total:
  assumes "no_throw env"
  shows "i + n \<le> capacity_m d \<Longrightarrow> i + n \<le> capacity_m rd \<Longrightarrow>
     \<forall>j<n. obj_at w (ptr_add (buffer_m d) (i + j)) \<noteq> None \<and> obj_at w (ptr_add (buffer_m rd) (i + j)) \<noteq> None \<Longrightarrow>
     \<exists>w'. assign_loop env d rd i n w = Return () w' \<and> keeps w w'"
proof (induction n arbitrary: i w)
  case 0
  then show ?case by simp
next
  case (Suc n)
  have idx: "RawMemory_index d i = Some (ptr_add (buffer_m d) i)" "RawMemory_index rd i = Some (ptr_add (buffer_m rd) i)"
    using Suc.prems(1,2) by (simp_all add: RawMemory_index_def)
  have "obj_at w (ptr_add (buffer_m d) i) \<noteq> None" "obj_at w (ptr_add (buffer_m rd) i) \<noteq> None"
    using Suc.prems(3) by (metis add.right_neutral zero_less_Suc)+
  from copy_assign_total[OF assms this] obtain w1 where
    w1: "copy_assign env (ptr_add (buffer_m d) i) (ptr_add (buffer_m rd) i) w = Return () w1" "keeps w w1"
    by blast
  have "\<forall>j<n. obj_at w1 (ptr_add (buffer_m d) (Suc i + j)) \<noteq> None \<and> obj_at w1 (ptr_add (buffer_m rd) (Suc i + j)) \<noteq> None"
  proof (intro allI impI)
    fix j assume "j < n"
    then have "obj_at w (ptr_add (buffer_m d) (i + Suc j)) \<noteq> None \<and> obj_at w (ptr_add (buffer_m rd) (i + Suc j)) \<noteq> None"
      using Suc.prems(3) by (metis Suc_less_eq)
    then show "obj_at w1 (ptr_add (buffer_m d) (Suc i + j)) \<noteq> None \<and> obj_at w1 (ptr_add (buffer_m rd) (Suc i + j)) \<noteq> None"
      using keepsD(2)[OF w1(2)] by simp
  qed
  from Suc.IH[OF _ _ this] Suc.prems(1,2) obtain w' where
    "assign_loop env d rd (Suc i) n w1 = Return () w'" "keeps w1 w'"
    by auto
  then show ?case using w1 idx by (auto intro: keeps_trans)
qed

lemma keeps_alloc: "keeps w (w\<lparr>heap := heap w @ [x], new_calls := c\<rparr>)"
proof -
  have "slot_at (w\<lparr>heap := heap w @ [x], new_calls := c\<rparr>) p = slot_at w p" if "slot_at w p \<noteq> None" for p
    using that by (cases "blk p") (auto simp: slot_at_def block_at_def nth_append split: option.splits if_splits)
  then show ?thesis
    unfolding keeps_def obj_at_def by (metis obj_slot obj_at_def)
qed

lemma destroy_at_total:
  assumes "obj_at w p \<noteq> None"
  shows "\<exists>w'. destroy_at p w = Return () w' \<and>
           (\<forall>q. slot_at w' q = (if q = p then Some Raw else slot_at w q))"
proof -
  from assms obtain x where x: "obj_at w p = Some x" by auto
  have s: "slot_at w p \<noteq> None" using assms by (rule obj_slot)
  show ?thesis using x s by (simp add: destroy_at_def slot_at_put_slot)
qed

lemma ptr_add_inj [simp]: "ptr_add p i = ptr_add p j \<longleftrightarrow> i = j"
  by (cases p) simp

lemma destroy_loop_total:
  "\<forall>j<n. obj_at w (ptr_add first (k + j)) \<noteq> None \<Longrightarrow>
   \<exists>w'. destroy_loop first k n w = Return () w' \<and>
         (\<forall>q. slot_at w' q = (if \<exists>j<n. q = ptr_add first (k + j) then Some Raw else slot_at w q))"
proof (induction n arbitrary: k w)
  case 0
  then show ?case by simp
next
  case (Suc n)
  have "obj_at w (ptr_add first k) \<noteq> None"
    using Suc.prems by (metis add.right_neutral zero_less_Suc)
  from destroy_at_total[OF this] obtain w1 where
    w1: "destroy_at (ptr_add first k) w = Return () w1"
      "\<And>q. slot_at w1 q = (if q = ptr_add first k then Some Raw else slot_at w q)"
    by blast
  have "\<forall>j<n. obj_at w1 (ptr_add first (Suc k + j)) \<noteq> None"
  proof (intro allI impI)
    fix j assume "j < n"
    then have "obj_at w (ptr_add first (k + Suc j)) \<noteq> None" using Suc.prems by (metis Suc_less_eq)
    then show "obj_at w1 (ptr_add first (Suc k + j)) \<noteq> None"
      by (simp add: obj_at_def w1(2))
  qed
  from Suc.IH[OF this] obtain w' where
    w': "destroy_loop first (Suc k) n w1 = Return () w'"
      "\<And>q. slot_at w' q = (if \<exists>j<n. q = ptr_add first (Suc k + j) then Some Raw else slot_at w1 q)"
    by blast
  have "slot_at w' q = (if \<exists>j<Suc n. q = ptr_add first (k + j) then Some Raw else slot_at w q)" for q
  proof (cases "\<exists>j<Suc n. q = ptr_add first (k + j)")
    case True
    then obtain j where j: "j < Suc n" "q = ptr_add first (k + j)" by blast
    show ?thesis
    proof (cases j)
      case 0
      then show ?thesis using j True by (simp add: w'(2) w1(2))
    next
      case (Suc i)
      then have "\<exists>j<n. q = ptr_add first (Suc k + j)" using j by auto
      then show ?thesis using True by (simp add: w'(2))
    qed
  next
    case False
    have "q \<noteq> ptr_add first k"
      using False by (metis add.right_neutral zero_less_Suc)
    moreover have "\<not> (\<exists>j<n. q = ptr_add first (Suc k + j))"
    proof
      assume "\<exists>j<n. q = ptr_add first (Suc k + j)"
      then obtain j where "j < n" "q = ptr_add first (Suc k + j)" by blast
      then have "Suc j < Suc n" "q = ptr_add first (k + Suc j)" by simp_all
      then show False using False by blast
    qed
    ultimately have "\<not> (\<exists>j<n. q = ptr_add first (Suc k + j))" "q \<noteq> ptr_add first k"
      by blast+
    then have "slot_at w' q = slot_at w q" by (simp only: w'(2) w1(2) if_False)
    then show ?thesis using False by (simp only: if_False)
  qed
  then show ?case using w1(1) w'(1) by simp
qed

lemma destroy_n_total:
  assumes "\<forall>j<n. obj_at w (ptr_add first j) \<noteq> None"
  shows "\<exists>w'. destroy_n first n w = Return () w' \<and>
           (\<forall>q. slot_at w q \<noteq> None \<longrightarrow> slot_at w' q \<noteq> None)"
proof -
  from destroy_loop_total[of n w first 0] assms obtain w' where
    "destroy_loop first 0 n w = Return () w'"
    "\<And>q. slot_at w' q = (if \<exists>j<n. q = ptr_add first (0 + j) then Some Raw else slot_at w q)"
    by auto
  then show ?thesis by (auto simp: destroy_n_def)
qed

lemma represents_obj_at:
  assumes "represents env w v xs" "i < length xs"
  shows "obj_at w (ptr_add (Vector_begin v) i) = Some (xs ! i)"
proof -
  have cpos: "capacity_m (data_m v) \<noteq> 0" using represents_bounds[OF assms(1)] assms(2) by simp
  from represents_block[OF assms(1) cpos] obtain b where
    b: "buffer_m (data_m v) = Ptr (Some b) 0" "b < length (heap w)"
      "heap w ! b = Some (map Obj xs @ replicate (capacity_m (data_m v) - length xs) Raw)"
    by blast
  have "obj_at w (Ptr (Some b) i) = Some (xs ! i)"
    by (rule obj_at_Ptr[OF b(2,3)]) (use assms(2) in \<open>simp_all add: nth_append\<close>)
  then show ?thesis using b(1) by (simp add: Vector_begin_def RawMemory_GetAddress_def)
qed

lemma represents_slot_at:
  assumes "represents env w v xs" "i < capacity_m (data_m v)"
  shows "slot_at w (ptr_add (Vector_begin v) i) \<noteq> None"
proof -
  have cpos: "capacity_m (data_m v) \<noteq> 0" using assms(2) by simp
  from represents_block[OF assms(1) cpos] obtain b where
    b: "buffer_m (data_m v) = Ptr (Some b) 0" "b < length (heap w)"
      "heap w ! b = Some (map Obj xs @ replicate (capacity_m (data_m v) - length xs) Raw)"
    by blast
  have "slot_at w (Ptr (Some b) i) \<noteq> None"
    using represents_bounds(2)[OF assms(1)] assms(2) by (simp add: slot_at_Ptr[OF b(2,3)])
  then show ?thesis using b(1) by (simp add: Vector_begin_def RawMemory_GetAddress_def)
qed

lemma ptr_add_add [simp]: "ptr_add (ptr_add p i) j = ptr_add p (i + j)"
  by (cases p) simp

lemma ptr_add_0 [simp]: "ptr_add p 0 = p"
  by (cases p) simp

theorem Erase_total:
  assumes r: "represents env w v xs" and off: "offset < length xs" and nt: "no_throw env"
  shows "\<exists>p v' w'. Vector_Erase env (ptr_add (Vector_begin v) offset) (v, w) = Return p (v', w')"
proof -
  note rb = represents_bounds[OF r]
  let ?b = "Vector_begin v"
  have offb: "offset \<le> PTRDIFF_MAX" using off rb by linarith
  have pd: "ptr_diff (ptr_add ?b offset) ?b = Some offset" using offb by (rule ptr_diff_add)
  have rng: "ptr_le ?b (ptr_add ?b offset) \<and> ptr_less (ptr_add ?b offset) (Vector_end v)"
    using off rb(1) by (simp add: ptr_le_def ptr_less_def Vector_end_def Vector_begin_def)
  have "\<forall>j<size_m v - (offset + 1). obj_at w (ptr_add (ptr_add ?b (offset + 1)) (0 + j)) \<noteq> None \<and>
          obj_at w (ptr_add (ptr_add ?b offset) (0 + j)) \<noteq> None"
    using rb(1) off by (simp add: represents_obj_at[OF r])
  from move_loop_total[OF nt this] obtain w1 where
    w1: "std_move env (ptr_add ?b (offset + 1)) (size_m v - (offset + 1)) (ptr_add ?b offset) w = Return () w1"
      "keeps w w1"
    by (auto simp: std_move_def)
  have "obj_at w (ptr_add ?b (size_m v - 1)) \<noteq> None"
    using rb(1) off by (simp add: represents_obj_at[OF r])
  then have "obj_at w1 (ptr_add ?b (size_m v - 1)) \<noteq> None" by (rule keepsD(2)[OF w1(2)])
  from destroy_at_total[OF this] obtain w2 where
    w2: "destroy_at (ptr_add ?b (size_m v - 1)) w1 = Return () w2" by blast
  show ?thesis
    using rng pd w1(1) w2 by (simp add: Vector_Erase_def Vector_begin_def)
qed

lemma RawMemory_ctor_total:
  assumes "n \<noteq> 0" "\<not> allocation_fails env w (n * sizeof env)" "n * sizeof env < 2 ^ 64" "0 < sizeof env"
  shows "RawMemory_ctor env n w =
           Return \<lparr>buffer_m = Ptr (Some (length (heap w))) 0, capacity_m = n\<rparr>
             (w\<lparr>heap := heap w @ [Some (replicate n Raw)], new_calls := new_calls w @ [n * sizeof env]\<rparr>)"
  using assms
  by (simp add: RawMemory_ctor_def RawMemory_Allocate_def operator_new_def size_t_id)

lemma slot_at_alloc:
  "slot_at (w\<lparr>heap := heap w @ [Some (replicate n Raw)], new_calls := c\<rparr>) (Ptr (Some (length (heap w))) j) =
     (if j < n then Some Raw else None)"
  by (simp add: slot_at_def block_at_def)

lemma RawMemory_dtor_total:
  assumes "represents env w0 v xs"
    and "\<forall>q. slot_at w0 q \<noteq> None \<longrightarrow> slot_at w q \<noteq> None"
  shows "\<exists>w'. RawMemory_dtor (data_m v) w = Return () w'"
proof (cases "capacity_m (data_m v) = 0")
  case True
  then have "buffer_m (data_m v) = nullptr" using represents_bounds(6)[OF assms(1)] by simp
  then show ?thesis
    by (simp add: RawMemory_dtor_def RawMemory_Deallocate_def operator_delete_def nullptr_def)
next
  case False
  from represents_block[OF assms(1) False] obtain b where
    b: "buffer_m (data_m v) = Ptr (Some b) 0" by blast
  have "slot_at w0 (ptr_add (Vector_begin v) 0) \<noteq> None"
    using False by (intro represents_slot_at[OF assms(1)]) simp
  then have "slot_at w (Ptr (Some b) 0) \<noteq> None"
    using assms(2) b by (simp add: Vector_begin_def RawMemory_GetAddress_def)
  then have "block_at w b \<noteq> None" by (auto simp: slot_at_def split: option.splits)
  then show ?thesis
    using b by (auto simp: RawMemory_dtor_def RawMemory_Deallocate_def operator_delete_def)
qed

theorem Emplace_grow_total:
  assumes r: "represents env w v xs" and full: "size_m v = capacity_m (data_m v)"
    and off: "offset \<le> length xs" and nt: "no_throw env"
    and al: "\<not> allocation_fails env w (max 1 (2 * capacity_m (data_m v)) * sizeof env)"
  shows "\<exists>d w'. Emplace_grow env v offset a w = Return d w'"
proof -
  define c where "c = capacity_m (data_m v)"
  define c' where "c' = max 1 (2 * c)"
  define nb where "nb = length (heap w)"
  note rb = represents_bounds[OF r]
  have n: "length xs = c" "size_m v = c" using rb full by (simp_all add: c_def)
  have c2: "size_t (Vector_Capacity v * 2) = 2 * c"
    using rb(5) by (simp add: size_t_def Vector_Capacity_def RawMemory_Capacity_def c_def PTRDIFF_MAX_def)
  have c'0: "c' \<noteq> 0" "Suc (length xs) \<le> c'" using n by (auto simp: c'_def)
  have bytes: "c' * sizeof env < 2 ^ 64"
  proof (cases "c = 0")
    case True
    then show ?thesis using rb(7) by (simp add: c'_def SIZE_MAX_def)
  next
    case False
    then have c2c: "c' = 2 * c" by (simp add: c'_def max_def)
    have le: "c * sizeof env \<le> 2 ^ 63 - 1" using rb(3) by (simp add: c_def PTRDIFF_MAX_def)
    have "c' * sizeof env = 2 * (c * sizeof env)" unfolding c2c by (rule mult.assoc)
    also have "\<dots> \<le> 2 * (2 ^ 63 - 1)" using le by (rule mult_le_mono2)
    also have "\<dots> < 2 ^ 64" by simp
    finally show ?thesis .
  qed
  let ?nd = "\<lparr>buffer_m = Ptr (Some nb) 0, capacity_m = c'\<rparr>"
  let ?w1 = "w\<lparr>heap := heap w @ [Some (replicate c' Raw)], new_calls := new_calls w @ [c' * sizeof env]\<rparr>"
  have alloc: "RawMemory_ctor env c' w = Return ?nd ?w1"
    unfolding nb_def using al by (intro RawMemory_ctor_total c'0 bytes rb(4)) (simp add: c'_def c_def)
  have k1: "keeps w ?w1" by (rule keeps_alloc)
  have s1: "slot_at ?w1 (Ptr (Some nb) j) \<noteq> None" if "j < c'" for j
    using that by (simp add: nb_def slot_at_alloc)
  have o0: "obj_at w (ptr_add (Vector_begin v) j) \<noteq> None" if "j < length xs" for j
    using that by (simp add: represents_obj_at[OF r])
  from construct_at_total[OF nt s1, of offset a] off c'0 obtain w2 where
    w2: "construct_at env (Ptr (Some nb) offset) a ?w1 = Return () w2" "keeps ?w1 w2"
    by auto
  have k2: "keeps w w2" by (rule keeps_trans[OF k1 w2(2)])
  have "\<forall>j<offset. obj_at w2 (ptr_add (Vector_begin v) j) \<noteq> None \<and> slot_at w2 (ptr_add (Ptr (Some nb) 0) j) \<noteq> None"
    using off c'0 o0 s1 keepsD(2)[OF k2] keepsD(1)[OF w2(2)] by simp
  from relocate_n_total[OF nt this] obtain w3 where
    w3: "relocate_n env (Vector_begin v) offset (Ptr (Some nb) 0) w2 = Return () w3" "keeps w2 w3"
    by blast
  have k3: "keeps w w3" "keeps ?w1 w3"
    by (rule keeps_trans[OF k2 w3(2)], rule keeps_trans[OF w2(2) w3(2)])
  have sub: "size_t_sub (size_m v) offset = length xs - offset"
    using off n rb(5) by (intro size_t_sub_id[THEN trans]) (simp_all add: c_def PTRDIFF_MAX_def)
  have "\<forall>j<length xs - offset. obj_at w3 (ptr_add (ptr_add (Vector_begin v) offset) j) \<noteq> None \<and>
          slot_at w3 (ptr_add (Ptr (Some nb) (offset + 1)) j) \<noteq> None"
    using off c'0 o0 s1 keepsD(2)[OF k3(1)] keepsD(1)[OF k3(2)] by simp
  from relocate_n_total[OF nt this] obtain w4 where
    w4: "relocate_n env (ptr_add (Vector_begin v) offset) (length xs - offset) (Ptr (Some nb) (offset + 1)) w3 = Return () w4"
      "keeps w3 w4"
    by blast
  have k4: "keeps w w4" by (rule keeps_trans[OF k3(1) w4(2)])
  have "\<forall>j<size_m v. obj_at w4 (ptr_add (Vector_begin v) j) \<noteq> None"
    using o0 rb(1) keepsD(2)[OF k4] by simp
  from destroy_n_total[OF this] obtain w5 where
    w5: "destroy_n (Vector_begin v) (size_m v) w4 = Return () w5"
      "\<forall>q. slot_at w4 q \<noteq> None \<longrightarrow> slot_at w5 q \<noteq> None"
    by blast
  have "\<forall>q. slot_at w q \<noteq> None \<longrightarrow> slot_at w5 q \<noteq> None"
    using w5(2) keepsD(1)[OF k4] by blast
  from RawMemory_dtor_total[OF r this] obtain w6 where
    w6: "RawMemory_dtor (data_m v) w5 = Return () w6" by blast
  have "Emplace_grow env v offset a w = Return ?nd w6"
    unfolding Emplace_grow_def Let_def c2 c'_def[symmetric]
    using alloc w2(1) w3(1) w4(1) w5(1) w6
    by (simp add: RawMemory_GetAddress_def sub)
  then show ?thesis by blast
qed

theorem Emplace_shift_total:
  assumes r: "represents env w v xs" and room: "size_m v < capacity_m (data_m v)"
    and off: "offset < length xs" and nt: "no_throw env"
  shows "\<exists>w'. Emplace_shift env v offset a w = Return () w'"
proof -
  note rb = represents_bounds[OF r]
  let ?b = "Vector_begin v"
  let ?wt = "w\<lparr>trace := trace w @ [ctor_op a]\<rparr>"
  have tmp: "construct_tmp env a w = Return (arg_value a) ?wt"
    by (rule construct_tmp_total[OF nt])
  have kt: "keeps w ?wt" by simp
  have sub: "size_t_sub (size_m v) 1 = size_m v - 1"
    using off rb by (intro size_t_sub_id) (simp_all add: PTRDIFF_MAX_def)
  have idx: "RawMemory_index (data_m v) (size_m v - 1) = Some (ptr_add ?b (size_m v - 1))"
    "RawMemory_index (data_m v) offset = Some (ptr_add ?b offset)"
    using off rb room by (simp_all add: RawMemory_index_def Vector_begin_def RawMemory_GetAddress_def)
  have en: "Vector_end v = ptr_add ?b (size_m v)"
    by (simp add: Vector_end_def Vector_begin_def)
  have o0: "obj_at ?wt (ptr_add ?b j) \<noteq> None" if "j < length xs" for j
    using that by (simp add: represents_obj_at[OF r])
  have "slot_at ?wt (ptr_add ?b (size_m v)) \<noteq> None"
    using represents_slot_at[OF r room] by simp
  moreover have "size_m v - 1 < length xs" using off rb(1) by simp
  ultimately obtain w1 where
    w1: "move_construct env (ptr_add ?b (size_m v)) (ptr_add ?b (size_m v - 1)) ?wt = Return () w1" "keeps ?wt w1"
    using move_construct_total[OF nt o0, of "size_m v - 1" "ptr_add ?b (size_m v)"] by blast
  have "\<forall>j<size_m v - 1 - offset. obj_at w1 (ptr_add (ptr_add ?b offset) j) \<noteq> None \<and>
          obj_at w1 (ptr_add (ptr_add ?b (offset + 1)) j) \<noteq> None"
    using o0 rb(1) keepsD(2)[OF w1(2)] by simp
  from move_backward_total[OF nt this] obtain w2 where
    w2: "move_backward env (ptr_add ?b offset) (size_m v - 1 - offset) (ptr_add ?b (offset + 1)) w1 = Return () w2"
      "keeps w1 w2"
    by blast
  have "obj_at w2 (ptr_add ?b offset) \<noteq> None"
    using o0[OF off] keepsD(2)[OF w1(2)] keepsD(2)[OF w2(2)] by blast
  from move_assign_tmp_total[OF nt this] obtain w3 where
    w3: "move_assign_tmp env (ptr_add ?b offset) (arg_value a) w2 = Return () w3" by blast
  have ge: "\<not> size_m v - 1 < offset" using off rb(1) by simp
  let ?body = "\<lambda>w. case RawMemory_index (data_m v) (size_t_sub (size_m v) 1) of
                     None \<Rightarrow> Fault
                   | Some back \<Rightarrow>
                       bind (move_construct env (Vector_end v) back) (\<lambda>_.
                         if size_m v - 1 < offset then (\<lambda>_. Fault)
                         else move_backward env (ptr_add (Vector_begin v) offset) (size_m v - 1 - offset)
                                (ptr_add (Vector_begin v) (offset + 1))) w"
  have body: "?body ?wt = Return () w2"
    unfolding sub idx en option.case using w1(1) w2(1) ge by simp
  have "catch_rethrow catch_all (destroy_at (Vector_end v)) ?body ?wt = Return () w2"
    using body by (rule catch_rethrow_simps(1))
  then have "Emplace_shift env v offset a w = Return () w3"
    unfolding Emplace_shift_def
    using tmp w3 by (simp add: idx)
  then show ?thesis by blast
qed

theorem Emplace_total:
  assumes r: "represents env w v xs" and off: "offset \<le> length xs" and nt: "no_throw env"
    and al: "size_m v = capacity_m (data_m v) \<longrightarrow>
             \<not> allocation_fails env w (max 1 (2 * capacity_m (data_m v)) * sizeof env)"
  shows "\<exists>p v' w'. Vector_Emplace env (ptr_add (Vector_begin v) offset) a (v, w) = Return p (v', w')"
proof -
  note rb = represents_bounds[OF r]
  have offb: "offset \<le> PTRDIFF_MAX" using off rb by linarith
  have pd: "ptr_diff (ptr_add (Vector_begin v) offset) (Vector_begin v) = Some offset"
    using offb by (rule ptr_diff_add)
  show ?thesis
  proof (cases "size_m v = capacity_m (data_m v)")
    case True
    from Emplace_grow_total[OF r True off nt] al True obtain d w' where
      "Emplace_grow env v offset a w = Return d w'" by blast
    then show ?thesis
      using True pd by (simp add: Vector_Emplace_def Vector_Capacity_def RawMemory_Capacity_def Let_def)
  next
    case False
    then have room: "size_m v < capacity_m (data_m v)" using rb by simp
    show ?thesis
    proof (cases "offset = length xs")
      case True
      have e: "ptr_add (Vector_begin v) offset = Vector_end v"
        using True rb(1) by (simp add: Vector_end_def Vector_begin_def)
      have pl: "RawMemory_plus (data_m v) offset = Some (ptr_add (Vector_begin v) offset)"
        using True rb by (simp add: RawMemory_plus_def Vector_begin_def RawMemory_GetAddress_def)
      have "slot_at w (ptr_add (Vector_begin v) offset) \<noteq> None"
        using True rb(1) room by (intro represents_slot_at[OF r]) simp
      from construct_at_total[OF nt this] obtain w' where
        "construct_at env (ptr_add (Vector_begin v) offset) a w = Return () w'" by blast
      then show ?thesis
        using False pd e pl
        by (simp add: Vector_Emplace_def Vector_Capacity_def RawMemory_Capacity_def Let_def)
    next
      case ne: False
      then have lt: "offset < length xs" using off by simp
      have e: "ptr_add (Vector_begin v) offset \<noteq> Vector_end v"
        using lt rb(1) by (simp add: Vector_end_def Vector_begin_def)
      from Emplace_shift_total[OF r room lt nt] obtain w' where
        "Emplace_shift env v offset a w = Return () w'" by blast
      then show ?thesis
        using False pd e
        by (simp add: Vector_Emplace_def Vector_Capacity_def RawMemory_Capacity_def Let_def)
    qed
  qed
qed

theorem Vector_copy_total:
  assumes r: "represents env w b ys" and nt: "no_throw env"
    and al: "ys \<noteq> [] \<longrightarrow> \<not> allocation_fails env w (length ys * sizeof env)"
  shows "\<exists>tmp w'. Vector_copy env b w = Return tmp w' \<and> keeps w w'"
proof (cases "ys = []")
  note rb = represents_bounds[OF r]
  case True
  then have "size_m b = 0" using rb by simp
  then have "Vector_copy env b w = Return \<lparr>data_m = \<lparr>buffer_m = nullptr, capacity_m = 0\<rparr>, size_m = 0\<rparr> w"
    by (simp add: Vector_copy_def RawMemory_ctor_def RawMemory_Allocate_def uninitialized_copy_n_def)
  then show ?thesis by simp
next
  note rb = represents_bounds[OF r]
  case False
  define n where "n = length ys"
  define nb where "nb = length (heap w)"
  have n0: "n \<noteq> 0" "size_m b = n" using False rb by (simp_all add: n_def)
  have "n * sizeof env \<le> capacity_m (data_m b) * sizeof env"
    using rb(2) unfolding n_def by (rule mult_le_mono1)
  also have "\<dots> \<le> 2 ^ 63 - 1" using rb(3) by (simp add: PTRDIFF_MAX_def)
  also have "\<dots> < (2 ^ 64 :: nat)" by simp
  finally have bytes: "n * sizeof env < 2 ^ 64" .
  let ?nd = "\<lparr>buffer_m = Ptr (Some nb) 0, capacity_m = n\<rparr>"
  let ?w1 = "w\<lparr>heap := heap w @ [Some (replicate n Raw)], new_calls := new_calls w @ [n * sizeof env]\<rparr>"
  have alloc: "RawMemory_ctor env n w = Return ?nd ?w1"
    unfolding nb_def using al False by (intro RawMemory_ctor_total n0 bytes rb(4)) (simp add: n_def)
  have k1: "keeps w ?w1" by (rule keeps_alloc)
  have "\<forall>j<n. obj_at ?w1 (ptr_add (Vector_begin b) j) \<noteq> None \<and> slot_at ?w1 (ptr_add (Ptr (Some nb) 0) j) \<noteq> None"
  proof (intro allI impI conjI)
    fix j assume j: "j < n"
    then have "obj_at w (ptr_add (Vector_begin b) j) \<noteq> None"
      by (simp add: represents_obj_at[OF r] n_def)
    then show "obj_at ?w1 (ptr_add (Vector_begin b) j) \<noteq> None" by (rule keepsD(2)[OF k1])
    show "slot_at ?w1 (ptr_add (Ptr (Some nb) 0) j) \<noteq> None"
      using j by (simp add: nb_def slot_at_alloc)
  qed
  from uninitialized_copy_n_total[OF nt this] obtain w2 where
    w2: "uninitialized_copy_n env (Vector_begin b) n (Ptr (Some nb) 0) ?w1 = Return () w2" "keeps ?w1 w2"
    by blast
  have "Vector_copy env b w = Return \<lparr>data_m = ?nd, size_m = n\<rparr> w2"
    unfolding Vector_copy_def n0(2)
    using alloc w2(1) by (simp add: RawMemory_GetAddress_def Vector_begin_def)
  then show ?thesis using keeps_trans[OF k1 w2(2)] by blast
qed

theorem Vector_copy_assign_total:
  assumes ra: "represents env w a xs" and rb: "represents env w b ys" and nt: "no_throw env"
    and al: "capacity_m (data_m a) < length ys \<longrightarrow> \<not> allocation_fails env w (length ys * sizeof env)"
  shows "\<exists>a' w'. Vector_copy_assign env (Other b) (a, w) = Return () (a', w')"
proof (cases "capacity_m (data_m a) < length ys")
  note A = represents_bounds[OF ra]
  note B = represents_bounds[OF rb]
  case True
  then have "ys \<noteq> []" by auto
  from Vector_copy_total[OF rb nt] al True obtain tmp w1 where
    cp: "Vector_copy env b w = Return tmp w1" "keeps w w1" by blast
  have "\<forall>j<size_m a. obj_at w1 (ptr_add (RawMemory_GetAddress (data_m a)) j) \<noteq> None"
    using A(1) represents_obj_at[OF ra] keepsD(2)[OF cp(2)]
    by (simp add: Vector_begin_def)
  from destroy_n_total[OF this] obtain w2 where
    w2: "destroy_n (RawMemory_GetAddress (data_m a)) (size_m a) w1 = Return () w2"
      "\<forall>q. slot_at w1 q \<noteq> None \<longrightarrow> slot_at w2 q \<noteq> None"
    by blast
  have "\<forall>q. slot_at w q \<noteq> None \<longrightarrow> slot_at w2 q \<noteq> None"
    using w2(2) keepsD(1)[OF cp(2)] by blast
  from RawMemory_dtor_total[OF ra this] obtain w3 where
    w3: "RawMemory_dtor (data_m a) w2 = Return () w3" by blast
  have "Vector_dtor a w1 = Return () w3"
    using w2(1) w3 by (simp add: Vector_dtor_def)
  then have "Vector_copy_assign env (Other b) (a, w) = Return () (tmp, w3)"
    using True cp(1) B(1) by (simp add: Vector_copy_assign_def RawMemory_Capacity_def)
  then show ?thesis by blast
next
  note A = represents_bounds[OF ra]
  note B = represents_bounds[OF rb]
  case False
  let ?m = "min (size_m a) (size_m b)"
  have "\<forall>j<?m. obj_at w (ptr_add (buffer_m (data_m a)) (0 + j)) \<noteq> None \<and>
                obj_at w (ptr_add (buffer_m (data_m b)) (0 + j)) \<noteq> None"
    using A(1) B(1) represents_obj_at[OF ra] represents_obj_at[OF rb]
    by (simp add: Vector_begin_def RawMemory_GetAddress_def)
  moreover have "0 + ?m \<le> capacity_m (data_m a)" "0 + ?m \<le> capacity_m (data_m b)"
    using A B by simp_all
  ultimately obtain w1 where
    w1: "assign_loop env (data_m a) (data_m b) 0 ?m w = Return () w1" "keeps w w1"
    using assign_loop_total[OF nt, of 0 ?m "data_m a" "data_m b" w] by blast
  let ?second = "if size_m a < size_m b
         then uninitialized_copy_n env (ptr_add (RawMemory_GetAddress (data_m b)) (size_m a))
                (size_m b - size_m a) (ptr_add (RawMemory_GetAddress (data_m a)) (size_m a))
         else destroy_n (ptr_add (RawMemory_GetAddress (data_m a)) (size_m b)) (size_m a - size_m b)"
  have "\<exists>w2. ?second w1 = Return () w2"
  proof (cases "size_m a < size_m b")
    case True
    have "\<forall>j<size_m b - size_m a.
            obj_at w1 (ptr_add (ptr_add (RawMemory_GetAddress (data_m b)) (size_m a)) j) \<noteq> None \<and>
            slot_at w1 (ptr_add (ptr_add (RawMemory_GetAddress (data_m a)) (size_m a)) j) \<noteq> None"
    proof (intro allI impI conjI)
      fix j assume j: "j < size_m b - size_m a"
      then have "obj_at w (ptr_add (Vector_begin b) (size_m a + j)) \<noteq> None"
        using B(1) by (simp add: represents_obj_at[OF rb])
      then show "obj_at w1 (ptr_add (ptr_add (RawMemory_GetAddress (data_m b)) (size_m a)) j) \<noteq> None"
        using keepsD(2)[OF w1(2)] by (simp add: Vector_begin_def)
      have "size_m a + j < capacity_m (data_m a)" using j False B(1) by simp
      from represents_slot_at[OF ra this]
      show "slot_at w1 (ptr_add (ptr_add (RawMemory_GetAddress (data_m a)) (size_m a)) j) \<noteq> None"
        using keepsD(1)[OF w1(2)] by (simp add: Vector_begin_def)
    qed
    from uninitialized_copy_n_total[OF nt this] True show ?thesis by auto
  next
    case ge: False
    have "\<forall>j<size_m a - size_m b. obj_at w1 (ptr_add (ptr_add (RawMemory_GetAddress (data_m a)) (size_m b)) j) \<noteq> None"
    proof (intro allI impI)
      fix j assume j: "j < size_m a - size_m b"
      then have "obj_at w (ptr_add (Vector_begin a) (size_m b + j)) \<noteq> None"
        using A(1) by (simp add: represents_obj_at[OF ra])
      then show "obj_at w1 (ptr_add (ptr_add (RawMemory_GetAddress (data_m a)) (size_m b)) j) \<noteq> None"
        using keepsD(2)[OF w1(2)] by (simp add: Vector_begin_def)
    qed
    from destroy_n_total[OF this] ge show ?thesis by auto
  qed
  then obtain w2 where w2: "?second w1 = Return () w2" by blast
  have "bind (assign_loop env (data_m a) (data_m b) 0 ?m) (\<lambda>_. ?second) w = Return () w2"
    using w1(1) w2 by simp
  then have "Vector_copy_assign env (Other b) (a, w) = Return () (a\<lparr>size_m := size_m b\<rparr>, w2)"
    using False B(1) by (simp add: Vector_copy_assign_def RawMemory_Capacity_def Let_def)
  then show ?thesis by blast
qed

section \<open>Footprints\<close>

lemma frame_refl [simp]: "frame V S w w"
  by (simp add: frame_def)

lemma frame_trans: "frame V S w w1 \<Longrightarrow> frame V S w1 w2 \<Longrightarrow> frame V S w w2"
  by (simp add: frame_def)

lemma frame_heap_eq: "heap w' = heap w \<Longrightarrow> frame V S w w'"
  by (simp add: frame_def)

lemma frame_cong: "heap w1 = heap w \<Longrightarrow> frame V S w1 w' \<Longrightarrow> frame V S w w'"
  by (simp add: frame_def)

lemma ends_mono: "ends out P \<Longrightarrow> (\<And>s. P s \<Longrightarrow> Q s) \<Longrightarrow> ends out Q"
  by (cases out) auto

lemma ends_Return: "ends out P \<Longrightarrow> out = Return r s \<Longrightarrow> P s"
  by simp

lemma ends_Throw: "ends out P \<Longrightarrow> out = Throw e s \<Longrightarrow> P s"
  by simp

lemma ends_bind:
  assumes "ends (m w) (frame V S w)"
    and "\<And>r w1. m w = Return r w1 \<Longrightarrow> ends (f r w1) (frame V S w1)"
  shows "ends (bind m f w) (frame V S w)"
proof (cases "m w")
  case (Return r w1)
  then have "frame V S w w1" using assms(1) by simp
  moreover have "ends (f r w1) (frame V S w1)" using assms(2) Return by simp
  ultimately have "ends (f r w1) (frame V S w)"
    by (auto intro: ends_mono frame_trans)
  then show ?thesis using Return by simp
next
  case (Throw e w1)
  then show ?thesis using assms(1) by simp
next
  case Fault
  then show ?thesis by simp
qed

lemma ends_catch_rethrow:
  assumes "ends (body w) (frame V S w)"
    and "\<And>e w1. body w = Throw e w1 \<Longrightarrow> ends (cleanup w1) (frame V S w1)"
  shows "ends (catch_rethrow h cleanup body w) (frame V S w)"
proof (cases "body w")
  case (Return r w1)
  then show ?thesis using assms(1) by simp
next
  case (Throw e w1)
  then have f: "frame V S w w1" using assms(1) by simp
  have c: "ends (cleanup w1) (frame V S w1)" using assms(2) Throw by simp
  show ?thesis
  proof (cases "h e")
    case True
    show ?thesis
    proof (cases "cleanup w1")
      case (Return u w2)
      then have "frame V S w w2" using c f by (auto intro: frame_trans)
      then show ?thesis using Throw True Return by simp
    next
      case T2: (Throw e2 w2)
      then have "frame V S w w2" using c f by (auto intro: frame_trans)
      then show ?thesis using Throw True T2 by (simp add: catch_rethrow_def)
    next
      case Fault
      then show ?thesis using Throw True by (simp add: catch_rethrow_def)
    qed
  next
    case False
    then show ?thesis using Throw f by simp
  qed
next
  case Fault
  then show ?thesis by simp
qed

lemma shape_update:
  "i < length ss \<Longrightarrow> is_Obj (ss ! i) = is_Obj s \<Longrightarrow> shape (Some (ss[i := s])) = shape (Some ss)"
  by (simp add: shape_def map_update list_eq_iff_nth_eq nth_list_update)

lemma put_slot_frame:
  assumes "outside V p"
    and "\<And>b. blk p = Some b \<Longrightarrow> b \<in> S \<Longrightarrow> \<exists>old. slot_at w p = Some old \<and> is_Obj old = is_Obj s"
  shows "frame V S w (put_slot p s w)"
proof (cases "blk p")
  case None
  then show ?thesis by (simp add: put_slot_def)
next
  case (Some b)
  show ?thesis
  proof (cases "block_at w b")
    case None
    then show ?thesis using Some by (simp add: put_slot_def)
  next
    case bl: (Some ss)
    then have b: "b < length (heap w)" "heap w ! b = Some ss"
      by (auto simp: block_at_def split: if_splits)
    have nv: "b \<notin> V" using assms(1) Some by (simp add: outside_def)
    have sh: "b \<in> S \<Longrightarrow> shape (Some (ss[idx p := s])) = shape (Some ss)"
    proof -
      assume "b \<in> S"
      from assms(2)[OF Some this] obtain old where "slot_at w p = Some old" "is_Obj old = is_Obj s"
        by blast
      then have "idx p < length ss" "is_Obj (ss ! idx p) = is_Obj s"
        using Some bl by (auto simp: slot_at_def split: if_splits)
      then show ?thesis by (rule shape_update)
    qed
    have "put_slot p s w = w\<lparr>heap := (heap w)[b := Some (ss[idx p := s])]\<rparr>"
      using Some bl by (simp add: put_slot_def)
    then show ?thesis
      using nv sh b by (auto simp: frame_def nth_list_update)
  qed
qed

lemma put_slot_outside: "outside (V \<union> S) p \<Longrightarrow> frame V S w (put_slot p s w)"
  by (rule put_slot_frame) (auto simp: outside_def split: option.splits)

lemma shape_eq_Some:
  assumes "shape x = shape (Some ss)"
  shows "\<exists>ss1. x = Some ss1 \<and> length ss1 = length ss \<and> (\<forall>i<length ss. is_Obj (ss1 ! i) = is_Obj (ss ! i))"
proof (cases x)
  case None
  then show ?thesis using assms by (simp add: shape_def)
next
  case (Some ss1)
  then have m: "map is_Obj ss1 = map is_Obj ss" using assms by (simp add: shape_def)
  then have l: "length ss1 = length ss" by (rule map_eq_imp_length_eq)
  have "\<forall>i<length ss. is_Obj (ss1 ! i) = is_Obj (ss ! i)"
  proof (intro allI impI)
    fix i assume i: "i < length ss"
    then have "map is_Obj ss1 ! i = map is_Obj ss ! i" using m by simp
    then show "is_Obj (ss1 ! i) = is_Obj (ss ! i)" using i l by simp
  qed
  then show ?thesis using Some l by simp
qed

lemma shape_eq_None: "shape x = shape None \<Longrightarrow> x = None"
  by (simp add: shape_def)

lemma frame_slot_shape:
  assumes "frame V S w w1" "blk p = Some b" "b \<in> S"
  shows "map_option is_Obj (slot_at w1 p) = map_option is_Obj (slot_at w p)"
proof (cases "b < length (heap w)")
  case True
  then have sh: "shape (heap w1 ! b) = shape (heap w ! b)" and b1: "b < length (heap w1)"
    using assms by (auto simp: frame_def)
  show ?thesis
  proof (cases "heap w ! b")
    case None
    then have "heap w1 ! b = None" using sh by (simp add: shape_eq_None)
    then show ?thesis using None True b1 assms(2) by (simp add: slot_at_def block_at_def)
  next
    case (Some ss)
    from shape_eq_Some[of "heap w1 ! b" ss] sh Some obtain ss1 where
      "heap w1 ! b = Some ss1" "length ss1 = length ss" "\<forall>i<length ss. is_Obj (ss1 ! i) = is_Obj (ss ! i)"
      by auto
    then show ?thesis using Some True b1 assms(2) by (simp add: slot_at_def block_at_def)
  qed
next
  case False
  then have "\<not> b < length (heap w1)" using assms(1) by (simp add: frame_def)
  then show ?thesis using False assms(2) by (simp add: slot_at_def block_at_def)
qed

lemma slot_at_heap: "heap w1 = heap w \<Longrightarrow> slot_at w1 p = slot_at w p"
  by (cases "blk p") (simp_all add: slot_at_def block_at_def)

lemma obj_at_heap: "heap w1 = heap w \<Longrightarrow> obj_at w1 p = obj_at w p"
  using slot_at_heap[of w1 w p] by (simp add: obj_at_def)

lemma call_op_heap: "ends (call_op env op w) (\<lambda>w'. heap w' = heap w)"
  by (simp add: call_op_def split: option.splits)

lemma call_move_ctor_heap: "ends (call_move_ctor env x w) (\<lambda>w'. heap w' = heap w)"
  by (simp add: call_move_ctor_def call_op_heap)

lemma call_ctor_heap: "ends (call_ctor env a w) (\<lambda>w'. heap w' = heap w)"
  by (cases a) (simp_all add: call_op_heap call_move_ctor_heap)

lemma call_op_frame: "ends (call_op env op w) (frame V S w)"
  by (rule ends_mono[OF call_op_heap]) (rule frame_heap_eq)

lemma call_move_ctor_frame: "ends (call_move_ctor env x w) (frame V S w)"
  by (rule ends_mono[OF call_move_ctor_heap]) (rule frame_heap_eq)

lemma call_ctor_frame: "ends (call_ctor env a w) (frame V S w)"
  by (rule ends_mono[OF call_ctor_heap]) (rule frame_heap_eq)

lemma place_frame: "outside (V \<union> S) p \<Longrightarrow> ends (place p x w) (frame V S w)"
  by (auto simp: place_def put_slot_outside split: option.splits)

lemma place_Obj_frame:
  "outside V p \<Longrightarrow> obj_at w p = Some y \<Longrightarrow> ends (place p x w) (frame V S w)"
  by (auto simp: place_def obj_at_def split: option.splits slot.splits intro!: put_slot_frame)

lemma construct_at_frame: "outside (V \<union> S) p \<Longrightarrow> ends (construct_at env p a w) (frame V S w)"
  unfolding construct_at_def by (intro ends_bind call_ctor_frame place_frame)

lemma construct_tmp_frame: "ends (construct_tmp env a w) (frame V S w)"
  unfolding construct_tmp_def by (intro ends_bind call_ctor_frame) simp

lemma copy_construct_frame:
  "outside (V \<union> S) dst \<Longrightarrow> ends (copy_construct env dst src w) (frame V S w)"
  unfolding copy_construct_def
  by (auto split: option.splits intro!: ends_bind call_op_frame place_frame)

lemma default_construct_frame:
  "outside (V \<union> S) dst \<Longrightarrow> ends (default_construct env dst w) (frame V S w)"
  unfolding default_construct_def by (intro ends_bind call_op_frame place_frame)

lemma value_construct_frame:
  "outside (V \<union> S) dst \<Longrightarrow> ends (value_construct env dst w) (frame V S w)"
  unfolding value_construct_def by (intro ends_bind call_op_frame place_frame)

lemma obj_at_is_Obj: "obj_at w p = Some x \<Longrightarrow> map_option is_Obj (slot_at w p) = Some True"
  by (auto simp: obj_at_def split: option.splits slot.splits)

lemma put_Obj_frame:
  assumes "outside V p" "map_option is_Obj (slot_at w p) = Some True"
  shows "frame V S w (put_slot p (Obj x) w)"
  using assms by (intro put_slot_frame) auto

lemma heap_trace_update [simp]: "heap (w\<lparr>trace := t\<rparr>) = heap w"
  by simp

lemma put_Obj_after:
  assumes "outside V p" "obj_at w p = Some y" "frame V S w w1"
  shows "frame V S w1 (put_slot p (Obj x) w1)"
proof (rule put_slot_frame[OF assms(1)])
  fix b assume b: "blk p = Some b" "b \<in> S"
  from frame_slot_shape[OF assms(3) b] obj_at_is_Obj[OF assms(2)]
  have "map_option is_Obj (slot_at w1 p) = Some True" by simp
  then show "\<exists>old. slot_at w1 p = Some old \<and> is_Obj old = is_Obj (Obj x)" by auto
qed

lemma move_construct_frame:
  assumes "outside (V \<union> S) dst" "outside V src"
  shows "ends (move_construct env dst src w) (frame V S w)"
proof (cases "obj_at w src")
  case None
  then show ?thesis by (simp add: move_construct_def)
next
  case (Some x)
  have "ends (bind (call_move_ctor env x)
            (\<lambda>_. bind (place dst x) (\<lambda>_ w'. Return () (put_slot src (Obj (moved_from env x)) w'))) w)
          (frame V S w)"
  proof (rule ends_bind[OF call_move_ctor_frame])
    fix r w1
    assume c: "call_move_ctor env x w = Return r w1"
    have h: "heap w1 = heap w" using call_move_ctor_heap[of env x w] c by simp
    then have o: "obj_at w1 src = Some x" using Some obj_at_heap[of w1 w src] by simp
    show "ends (bind (place dst x) (\<lambda>_ w'. Return () (put_slot src (Obj (moved_from env x)) w')) w1) (frame V S w1)"
    proof (rule ends_bind[OF place_frame[OF assms(1)]])
      fix r' w2
      assume "place dst x w1 = Return r' w2"
      then have "frame V S w1 w2" using place_frame[OF assms(1), of x w1] by simp
      from put_Obj_after[OF assms(2) o this]
      show "ends (Return () (put_slot src (Obj (moved_from env x)) w2)) (frame V S w2)" by simp
    qed
  qed
  then show ?thesis using Some by (simp add: move_construct_def)
qed

lemma copy_assign_frame:
  assumes "outside V dst"
  shows "ends (copy_assign env dst src w) (frame V S w)"
proof (cases "obj_at w dst")
  case None
  then show ?thesis by (simp add: copy_assign_def)
next
  case y: (Some y)
  show ?thesis
  proof (cases "obj_at w src")
    case None
    then show ?thesis using y by (simp add: copy_assign_def)
  next
    case (Some x)
    have "ends (bind (call_op env (CopyAssign y x)) (\<lambda>_. place dst x) w) (frame V S w)"
    proof (rule ends_bind[OF call_op_frame])
      fix r w1
      assume c: "call_op env (CopyAssign y x) w = Return r w1"
      have "heap w1 = heap w" using call_op_heap[of env "CopyAssign y x" w] c by simp
      then have "obj_at w1 dst = Some y" using y obj_at_heap[of w1 w dst] by simp
      then show "ends (place dst x w1) (frame V S w1)" by (rule place_Obj_frame[OF assms])
    qed
    then show ?thesis using y Some by (simp add: copy_assign_def)
  qed
qed

lemma move_assign_tmp_frame:
  assumes "outside V dst"
  shows "ends (move_assign_tmp env dst x w) (frame V S w)"
proof (cases "obj_at w dst")
  case None
  then show ?thesis by (simp add: move_assign_tmp_def)
next
  case (Some y)
  have "ends (bind (call_op env (MoveAssign y x)) (\<lambda>_. place dst x) w) (frame V S w)"
  proof (rule ends_bind[OF call_op_frame])
    fix r w1
    assume c: "call_op env (MoveAssign y x) w = Return r w1"
    have "heap w1 = heap w" using call_op_heap[of env "MoveAssign y x" w] c by simp
    then have "obj_at w1 dst = Some y" using Some obj_at_heap[of w1 w dst] by simp
    then show "ends (place dst x w1) (frame V S w1)" by (rule place_Obj_frame[OF assms])
  qed
  then show ?thesis using Some by (simp add: move_assign_tmp_def)
qed

lemma move_assign_frame:
  assumes "outside V dst" "outside V src"
  shows "ends (move_assign env dst src w) (frame V S w)"
proof (cases "obj_at w dst")
  case None
  then show ?thesis by (simp add: move_assign_def)
next
  case y: (Some y)
  show ?thesis
  proof (cases "obj_at w src")
    case None
    then show ?thesis using y by (simp add: move_assign_def)
  next
    case (Some x)
    have "ends (bind (call_op env (MoveAssign y x))
            (\<lambda>_ w'. Return () (put_slot dst (Obj x) (put_slot src (Obj (moved_from env x)) w'))) w)
          (frame V S w)"
    proof (rule ends_bind[OF call_op_frame])
      fix r w1
      assume c: "call_op env (MoveAssign y x) w = Return r w1"
      have h: "heap w1 = heap w" using call_op_heap[of env "MoveAssign y x" w] c by simp
      have o: "obj_at w1 src = Some x" "obj_at w1 dst = Some y"
        using Some y obj_at_heap[OF h, of src] obj_at_heap[OF h, of dst] by simp_all
      let ?w2 = "put_slot src (Obj (moved_from env x)) w1"
      have f1: "frame V S w1 ?w2" by (rule put_Obj_after[OF assms(2) o(1) frame_refl])
      have f2: "frame V S ?w2 (put_slot dst (Obj x) ?w2)" by (rule put_Obj_after[OF assms(1) o(2) f1])
      show "ends (Return () (put_slot dst (Obj x) ?w2)) (frame V S w1)"
        using frame_trans[OF f1 f2] by simp
    qed
    then show ?thesis using y Some by (simp add: move_assign_def)
  qed
qed

lemma destroy_at_frame: "outside (V \<union> S) p \<Longrightarrow> ends (destroy_at p w) (frame V S w)"
  using put_slot_outside[of V S p w Raw]
  by (auto simp: destroy_at_def frame_def split: option.splits)

lemma destroy_loop_frame:
  "outside (V \<union> S) p \<Longrightarrow> ends (destroy_loop p k n w) (frame V S w)"
proof (induction n arbitrary: k w)
  case 0
  then show ?case by simp
next
  case (Suc n)
  have o: "outside (V \<union> S) (ptr_add p k)" using Suc.prems by (simp add: outside_def)
  show ?case
  proof (cases "destroy_at (ptr_add p k) w")
    case (Return r w1)
    then have "frame V S w w1" using destroy_at_frame[OF o, of w] by simp
    then show ?thesis
      using Return Suc.IH[OF Suc.prems, of "Suc k" w1] by (auto intro: ends_mono frame_trans)
  next
    case (Throw e w1)
    then show ?thesis using destroy_at_frame[OF o, of w] by simp
  next
    case Fault
    then show ?thesis by simp
  qed
qed

lemma destroy_n_frame: "outside (V \<union> S) p \<Longrightarrow> ends (destroy_n p n w) (frame V S w)"
  by (simp add: destroy_n_def destroy_loop_frame)

lemma destroy_at_no_Throw: "destroy_at p w \<noteq> Throw e w'"
  by (simp add: destroy_at_def split: option.splits)

lemma destroy_loop_no_Throw: "destroy_loop p k n w \<noteq> Throw e w'"
  by (induction n arbitrary: k w) (auto simp: destroy_at_no_Throw split: outcome.splits)

lemma destroy_n_no_Throw: "destroy_n p n w \<noteq> Throw e w'"
  by (simp add: destroy_n_def destroy_loop_no_Throw)

lemma RawMemory_dtor_no_Throw: "RawMemory_dtor m w \<noteq> Throw e w'"
  by (simp add: RawMemory_dtor_def RawMemory_Deallocate_def operator_delete_def split: option.splits)

lemma RawMemory_dtor_frame:
  assumes "outside (V \<union> S) (buffer_m m)"
  shows "ends (RawMemory_dtor m w) (frame V S w)"
proof (cases "blk (buffer_m m)")
  case None
  then show ?thesis
    by (simp add: RawMemory_dtor_def RawMemory_Deallocate_def operator_delete_def)
next
  case (Some b)
  then have nb: "b \<notin> V" "b \<notin> S" using assms by (simp_all add: outside_def)
  have "frame V S w (w\<lparr>heap := (heap w)[b := None]\<rparr>)"
    unfolding frame_def
  proof (intro conjI allI impI)
    show "length (heap (w\<lparr>heap := (heap w)[b := None]\<rparr>)) = length (heap w)" by simp
  next
    fix k assume "k < length (heap w)" "k \<in> V"
    then have "k \<noteq> b" using nb by auto
    then show "heap (w\<lparr>heap := (heap w)[b := None]\<rparr>) ! k = heap w ! k" by simp
  next
    fix k assume "k < length (heap w)" "k \<in> S"
    then have "k \<noteq> b" using nb by auto
    then show "shape (heap (w\<lparr>heap := (heap w)[b := None]\<rparr>) ! k) = shape (heap w ! k)" by simp
  qed
  then show ?thesis
    using Some
    by (simp add: RawMemory_dtor_def RawMemory_Deallocate_def operator_delete_def split: option.splits)
qed

lemma uninitialized_loop_frame:
  assumes "\<And>k w. ends (ctor k w) (frame V S w)" and "outside (V \<union> S) d"
  shows "ends (uninitialized_loop ctor d k n w) (frame V S w)"
proof (induction n arbitrary: k w)
  case 0
  then show ?case by simp
next
  case (Suc n)
  show ?case
  proof (cases "ctor k w")
    case (Return r w1)
    then have "frame V S w w1" using assms(1)[of k w] by simp
    then show ?thesis using Return Suc.IH[of "Suc k" w1] by (auto intro: ends_mono frame_trans)
  next
    case (Throw e w1)
    then have f: "frame V S w w1" using assms(1)[of k w] by simp
    have "ends (destroy_n d k w1) (frame V S w1)" by (rule destroy_n_frame[OF assms(2)])
    then have "ends (destroy_n d k w1) (frame V S w)" using f by (auto intro: ends_mono frame_trans)
    then show ?thesis using Throw by (cases "destroy_n d k w1") simp_all
  next
    case Fault
    then show ?thesis by simp
  qed
qed

lemma outside_ptr_add [simp]: "outside A (ptr_add p k) = outside A p"
  by (simp add: outside_def)

lemma uninitialized_copy_n_frame:
  "outside (V \<union> S) d \<Longrightarrow> ends (uninitialized_copy_n env first n d w) (frame V S w)"
  unfolding uninitialized_copy_n_def
  by (intro uninitialized_loop_frame copy_construct_frame) simp_all

lemma uninitialized_move_n_frame:
  "outside (V \<union> S) d \<Longrightarrow> outside V first \<Longrightarrow> ends (uninitialized_move_n env first n d w) (frame V S w)"
  unfolding uninitialized_move_n_def
  by (intro uninitialized_loop_frame move_construct_frame) simp_all

lemma uninitialized_default_construct_n_frame:
  "outside (V \<union> S) d \<Longrightarrow> ends (uninitialized_default_construct_n env d n w) (frame V S w)"
  unfolding uninitialized_default_construct_n_def
  by (intro uninitialized_loop_frame default_construct_frame) simp_all

lemma uninitialized_value_construct_n_frame:
  "outside (V \<union> S) d \<Longrightarrow> ends (uninitialized_value_construct_n env d n w) (frame V S w)"
  unfolding uninitialized_value_construct_n_def
  by (intro uninitialized_loop_frame value_construct_frame) simp_all

lemma relocate_n_frame:
  "outside (V \<union> S) d \<Longrightarrow> relocates_by_move env \<longrightarrow> outside V first \<Longrightarrow>
   ends (relocate_n env first n d w) (frame V S w)"
  by (simp add: relocate_n_def relocates_by_move_def uninitialized_copy_n_frame uninitialized_move_n_frame)

lemma move_loop_frame:
  "outside V first \<Longrightarrow> outside V d \<Longrightarrow> ends (move_loop env first d k n w) (frame V S w)"
proof (induction n arbitrary: k w)
  case 0
  then show ?case by simp
next
  case (Suc n)
  have m: "ends (move_assign env (ptr_add d k) (ptr_add first k) w) (frame V S w)"
    using Suc.prems by (intro move_assign_frame) simp_all
  show ?case
  proof (cases "move_assign env (ptr_add d k) (ptr_add first k) w")
    case (Return r w1)
    then have "frame V S w w1" using m by simp
    then show ?thesis using Return Suc.IH[OF Suc.prems, of "Suc k" w1] by (auto intro: ends_mono frame_trans)
  next
    case (Throw e w1)
    then show ?thesis using m by simp
  next
    case Fault
    then show ?thesis by simp
  qed
qed

lemma std_move_frame:
  "outside V first \<Longrightarrow> outside V d \<Longrightarrow> ends (std_move env first n d w) (frame V S w)"
  by (simp add: std_move_def move_loop_frame)

lemma move_backward_frame:
  "outside V first \<Longrightarrow> outside V d \<Longrightarrow> ends (move_backward env first n d w) (frame V S w)"
proof (induction n arbitrary: w)
  case 0
  then show ?case by simp
next
  case (Suc n)
  have m: "ends (move_assign env (ptr_add d n) (ptr_add first n) w) (frame V S w)"
    using Suc.prems by (intro move_assign_frame) simp_all
  show ?case
  proof (cases "move_assign env (ptr_add d n) (ptr_add first n) w")
    case (Return r w1)
    then have "frame V S w w1" using m by simp
    then show ?thesis using Return Suc.IH[OF Suc.prems, of w1] by (auto intro: ends_mono frame_trans)
  next
    case (Throw e w1)
    then show ?thesis using m by simp
  next
    case Fault
    then show ?thesis by simp
  qed
qed

lemma assign_loop_frame:
  "outside V (buffer_m d) \<Longrightarrow> ends (assign_loop env d rd i n w) (frame V S w)"
proof (induction n arbitrary: i w)
  case 0
  then show ?case by simp
next
  case (Suc n)
  show ?case
  proof (cases "RawMemory_index d i")
    case None
    then show ?thesis by simp
  next
    case dst: (Some dst)
    then have od: "outside V dst" using Suc.prems by (auto simp: RawMemory_index_def split: if_splits)
    show ?thesis
    proof (cases "RawMemory_index rd i")
      case None
      then show ?thesis using dst by simp
    next
      case (Some src)
      have m: "ends (copy_assign env dst src w) (frame V S w)" by (rule copy_assign_frame[OF od])
      show ?thesis
      proof (cases "copy_assign env dst src w")
        case (Return r w1)
        then have "frame V S w w1" using m by simp
        then show ?thesis
          using Return dst Some Suc.IH[OF Suc.prems, of "Suc i" w1] by (auto intro: ends_mono frame_trans)
      next
        case (Throw e w1)
        then show ?thesis using m dst Some by simp
      next
        case Fault
        then show ?thesis using dst Some by simp
      qed
    qed
  qed
qed

section \<open>What a call leaves alone\<close>

lemma kept_refl [simp]: "kept V w w"
  by (simp add: kept_def)

lemma kept_trans: "kept V w w1 \<Longrightarrow> kept V w1 w2 \<Longrightarrow> kept V w w2"
  by (simp add: kept_def)

lemma frame_kept: "frame V S w w' \<Longrightarrow> kept V w w'"
  by (simp add: frame_def kept_def)

lemma ends_frame_kept: "ends out (frame V S w) \<Longrightarrow> ends out (kept V w)"
  by (erule ends_mono) (rule frame_kept)

lemma ends_bind_kept:
  assumes "ends (m w) (kept V w)"
    and "\<And>r w1. m w = Return r w1 \<Longrightarrow> ends (f r w1) (kept V w1)"
  shows "ends (bind m f w) (kept V w)"
proof (cases "m w")
  case (Return r w1)
  then have "kept V w w1" using assms(1) by simp
  moreover have "ends (f r w1) (kept V w1)" using assms(2) Return by simp
  ultimately have "ends (f r w1) (kept V w)"
    by (auto intro: ends_mono kept_trans)
  then show ?thesis using Return by simp
next
  case (Throw e w1)
  then show ?thesis using assms(1) by simp
next
  case Fault
  then show ?thesis by simp
qed

lemma ends_catch_kept:
  assumes "ends (body w) (kept V w)"
    and "\<And>e w1. body w = Throw e w1 \<Longrightarrow> ends (cleanup w1) (kept V w1)"
  shows "ends (catch_rethrow h cleanup body w) (kept V w)"
proof (cases "body w")
  case (Return r w1)
  then show ?thesis using assms(1) by simp
next
  case (Throw e w1)
  then have f: "kept V w w1" using assms(1) by simp
  have c: "ends (cleanup w1) (kept V w1)" using assms(2) Throw by simp
  show ?thesis
  proof (cases "h e")
    case True
    show ?thesis
    proof (cases "cleanup w1")
      case (Return u w2)
      then have "kept V w w2" using c f by (auto intro: kept_trans)
      then show ?thesis using Throw True Return by simp
    next
      case T2: (Throw e2 w2)
      then have "kept V w w2" using c f by (auto intro: kept_trans)
      then show ?thesis using Throw True T2 by (simp add: catch_rethrow_def)
    next
      case Fault
      then show ?thesis using Throw True by (simp add: catch_rethrow_def)
    qed
  next
    case False
    then show ?thesis using Throw f by simp
  qed
next
  case Fault
  then show ?thesis by simp
qed

lemma RawMemory_ctor_kept: "ends (RawMemory_ctor env n w) (kept V w)"
  by (simp add: RawMemory_ctor_def RawMemory_Allocate_def operator_new_def bind_def kept_def nth_append)

lemma RawMemory_ctor_fresh:
  assumes "RawMemory_ctor env n w = Return nd w1" "V \<subseteq> {..<length (heap w)}"
  shows "outside V (buffer_m nd)"
  using assms
  by (auto simp: RawMemory_ctor_def RawMemory_Allocate_def operator_new_def bind_def outside_def nullptr_def
      split: if_splits)

text \<open>
  A buffer allocated for the call, released by the handler when the body throws: the blocks
  that the body leaves alone, whatever new buffer it is given, are left alone.
\<close>

lemma guarded_buffer_kept:
  assumes sub: "V \<subseteq> {..<length (heap w)}"
    and body: "\<And>nd w1. outside V (buffer_m nd) \<Longrightarrow> ends (body nd w1) (kept V w1)"
  shows "ends (bind (RawMemory_ctor env n) (\<lambda>nd. catch_rethrow h (RawMemory_dtor nd) (body nd)) w) (kept V w)"
proof (rule ends_bind_kept[OF RawMemory_ctor_kept])
  fix nd w1 assume "RawMemory_ctor env n w = Return nd w1"
  then have o: "outside V (buffer_m nd)" using sub by (rule RawMemory_ctor_fresh)
  show "ends (catch_rethrow h (RawMemory_dtor nd) (body nd) w1) (kept V w1)"
  proof (rule ends_catch_kept[OF body[OF o]])
    fix e w2
    show "ends (RawMemory_dtor nd w2) (kept V w2)"
      by (rule ends_frame_kept[where S = "{}"], rule RawMemory_dtor_frame) (use o in simp)
  qed
qed

lemma guarded_buffer_value:
  assumes "bind (RawMemory_ctor env n) (\<lambda>nd. catch_rethrow h (RawMemory_dtor nd) (body nd)) w = Return d w'"
    and "V \<subseteq> {..<length (heap w)}"
    and "\<And>nd w1. body nd w1 = Return d w' \<Longrightarrow> p = buffer_m nd"
  shows "outside V p"
proof -
  from assms(1) obtain nd w1 where
    a: "RawMemory_ctor env n w = Return nd w1" and b: "body nd w1 = Return d w'"
    by (auto simp: bind_Return_iff catch_rethrow_Return_iff)
  show ?thesis using RawMemory_ctor_fresh[OF a assms(2)] assms(3)[OF b] by simp
qed

lemma outside_buffer: "V \<inter> own v = {} \<Longrightarrow> outside V (buffer_m (data_m v))"
  by (auto simp: outside_def own_def split: option.splits)

lemma own_outside: "outside V (buffer_m (data_m v)) \<Longrightarrow> V \<inter> own v = {}"
  by (auto simp: outside_def own_def split: option.splits)

lemma outside_begin [simp]: "outside V (Vector_begin v) = outside V (buffer_m (data_m v))"
  by (simp add: Vector_begin_def RawMemory_GetAddress_def)

lemma outside_end [simp]: "outside V (Vector_end v) = outside V (buffer_m (data_m v))"
  by (simp add: Vector_end_def RawMemory_GetAddress_def)

lemma outside_GetAddress [simp]: "outside V (RawMemory_GetAddress m) = outside V (buffer_m m)"
  by (simp add: RawMemory_GetAddress_def)

lemma outside_index: "RawMemory_index m i = Some p \<Longrightarrow> outside V p = outside V (buffer_m m)"
  by (auto simp: RawMemory_index_def split: if_splits)

lemma outside_plus: "RawMemory_plus m i = Some p \<Longrightarrow> outside V p = outside V (buffer_m m)"
  by (auto simp: RawMemory_plus_def split: if_splits)

lemma relocate_n_kept:
  "outside V d \<Longrightarrow> outside V first \<Longrightarrow> ends (relocate_n env first n d w) (kept V w)"
  by (rule ends_frame_kept[where S = "{}"], rule relocate_n_frame) simp_all

lemma destroy_n_kept: "outside V p \<Longrightarrow> ends (destroy_n p n w) (kept V w)"
  by (rule ends_frame_kept[where S = "{}"], rule destroy_n_frame) simp

lemma destroy_at_kept: "outside V p \<Longrightarrow> ends (destroy_at p w) (kept V w)"
  by (rule ends_frame_kept[where S = "{}"], rule destroy_at_frame) simp

lemma RawMemory_dtor_kept: "outside V (buffer_m m) \<Longrightarrow> ends (RawMemory_dtor m w) (kept V w)"
  by (rule ends_frame_kept[where S = "{}"], rule RawMemory_dtor_frame) simp

lemma construct_at_kept: "outside V p \<Longrightarrow> ends (construct_at env p a w) (kept V w)"
  by (rule ends_frame_kept[where S = "{}"], rule construct_at_frame) simp

lemma construct_tmp_kept: "ends (construct_tmp env a w) (kept V w)"
  by (rule ends_frame_kept[where S = "{}"], rule construct_tmp_frame)

lemma move_construct_kept:
  "outside V dst \<Longrightarrow> outside V src \<Longrightarrow> ends (move_construct env dst src w) (kept V w)"
  by (rule ends_frame_kept[where S = "{}"], rule move_construct_frame) simp_all

lemma move_backward_kept:
  "outside V first \<Longrightarrow> outside V d \<Longrightarrow> ends (move_backward env first n d w) (kept V w)"
  by (rule ends_frame_kept[where S = "{}"], rule move_backward_frame)

lemma std_move_kept:
  "outside V first \<Longrightarrow> outside V d \<Longrightarrow> ends (std_move env first n d w) (kept V w)"
  by (rule ends_frame_kept[where S = "{}"], rule std_move_frame)

lemma move_assign_tmp_kept: "outside V dst \<Longrightarrow> ends (move_assign_tmp env dst x w) (kept V w)"
  by (rule ends_frame_kept[where S = "{}"], rule move_assign_tmp_frame)

lemma assign_loop_kept: "outside V (buffer_m d) \<Longrightarrow> ends (assign_loop env d rd i n w) (kept V w)"
  by (rule ends_frame_kept[where S = "{}"], rule assign_loop_frame)

lemma uninitialized_copy_n_kept:
  "outside V d \<Longrightarrow> ends (uninitialized_copy_n env first n d w) (kept V w)"
  by (rule ends_frame_kept[where S = "{}"], rule uninitialized_copy_n_frame) simp

lemma uninitialized_default_construct_n_kept:
  "outside V d \<Longrightarrow> ends (uninitialized_default_construct_n env d n w) (kept V w)"
  by (rule ends_frame_kept[where S = "{}"], rule uninitialized_default_construct_n_frame) simp

lemma ends_Return_kept [simp]: "ends (Return r w) (kept V w)"
  by simp

text \<open>
  A member function that gives the array a new member on return and leaves the object as it
  was when it throws.
\<close>

lemma ends_member:
  assumes "ends out (kept V w)" "V \<inter> own v = {}"
    and "\<And>d w'. out = Return d w' \<Longrightarrow> V \<inter> own (f d) = {}"
  shows "ends (case out of Return d w' \<Rightarrow> Return (g d) (f d, w') | Throw e w' \<Rightarrow> Throw e (v, w') | Fault \<Rightarrow> Fault)
           (\<lambda>s. kept V w (snd s) \<and> V \<inter> own (fst s) = {})"
  using assms by (cases out) simp_all

lemma own_data_m [simp]: "own (v\<lparr>data_m := d\<rparr>) = {b. blk (buffer_m d) = Some b}"
  by (simp add: own_def)

lemma own_size_m [simp]: "own (v\<lparr>size_m := n\<rparr>) = own v"
  by (simp add: own_def)

lemma outside_own_iff: "outside V (buffer_m d) \<longleftrightarrow> V \<inter> {b. blk (buffer_m d) = Some b} = {}"
  by (auto simp: outside_def split: option.splits)

theorem Reserve_kept:
  assumes sub: "V \<subseteq> {..<length (heap w)}" and own: "V \<inter> own v = {}"
  shows "ends (Vector_Reserve env n (v, w)) (\<lambda>s. kept V w (snd s) \<and> V \<inter> own (fst s) = {})"
proof (cases "n \<le> RawMemory_Capacity (data_m v)")
  case True
  then show ?thesis using own by (simp add: Vector_Reserve_def)
next
  case False
  note o = outside_buffer[OF own]
  let ?body = "\<lambda>new_data. bind (relocate_n env (RawMemory_GetAddress (data_m v)) (size_m v) (RawMemory_GetAddress new_data)) (\<lambda>_.
                  bind (destroy_n (RawMemory_GetAddress (data_m v)) (size_m v)) (\<lambda>_.
                  (case RawMemory_Swap (data_m v) new_data of
                     (d, nd) \<Rightarrow> bind (RawMemory_dtor nd) (\<lambda>_. Return d))))"
  let ?inner = "bind (RawMemory_ctor env n) (\<lambda>new_data. catch_rethrow catch_all (RawMemory_dtor new_data) (?body new_data))"
  have b: "ends (?body nd w1) (kept V w1)" if "outside V (buffer_m nd)" for nd w1
    using that o
    by (intro ends_bind_kept relocate_n_kept destroy_n_kept)
       (simp_all add: RawMemory_dtor_kept ends_bind_kept)
  have k: "ends (?inner w) (kept V w)"
    by (rule guarded_buffer_kept[OF sub b])
  have val: "V \<inter> own (v\<lparr>data_m := d\<rparr>) = {}" if "?inner w = Return d w'" for d w'
  proof -
    have "outside V (buffer_m d)"
      by (rule guarded_buffer_value[OF that sub]) (auto simp: bind_Return_iff)
    then show ?thesis by (simp add: outside_own_iff)
  qed
  have "Vector_Reserve env n (v, w) =
          (case ?inner w of Return d w' \<Rightarrow> Return () (v\<lparr>data_m := d\<rparr>, w') | Throw e w' \<Rightarrow> Throw e (v, w') | Fault \<Rightarrow> Fault)"
    using False by (simp add: Vector_Reserve_def)
  then show ?thesis
    using ends_member[OF k own val, where g = "\<lambda>_. ()"] by simp
qed

theorem Resize_kept:
  assumes sub: "V \<subseteq> {..<length (heap w)}" and own: "V \<inter> own v = {}"
  shows "ends (Vector_Resize env n (v, w)) (\<lambda>s. kept V w (snd s) \<and> V \<inter> own (fst s) = {})"
proof (cases "n \<le> size_m v")
  case True
  note o = outside_buffer[OF own]
  have k: "ends (destroy_n (ptr_add (RawMemory_GetAddress (data_m v)) n) (size_m v - n) w) (kept V w)"
    using o by (intro destroy_n_kept) simp
  have "Vector_Resize env n (v, w) =
          (case destroy_n (ptr_add (RawMemory_GetAddress (data_m v)) n) (size_m v - n) w of
             Return d w' \<Rightarrow> Return () (v\<lparr>size_m := n\<rparr>, w') | Throw e w' \<Rightarrow> Throw e (v, w') | Fault \<Rightarrow> Fault)"
    using True by (simp add: Vector_Resize_def)
  then show ?thesis
    using ends_member[OF k own, where f = "\<lambda>_. v\<lparr>size_m := n\<rparr>" and g = "\<lambda>_. ()"] own by simp
next
  case False
  note R = Reserve_kept[OF sub own, of env n]
  show ?thesis
  proof (cases "Vector_Reserve env n (v, w)")
    case (Return u s1)
    obtain v1 w1 where s1: "s1 = (v1, w1)" by (cases s1)
    from R Return s1 have r1: "kept V w w1" "V \<inter> own v1 = {}" by simp_all
    have "ends (uninitialized_default_construct_n env
                    (ptr_add (RawMemory_GetAddress (data_m v1)) (size_m v1)) (n - size_m v1) w1) (kept V w1)"
      using outside_buffer[OF r1(2)] by (intro uninitialized_default_construct_n_kept) simp
    then have k: "ends (uninitialized_default_construct_n env
                    (ptr_add (RawMemory_GetAddress (data_m v1)) (size_m v1)) (n - size_m v1) w1) (kept V w)"
      by (rule ends_mono) (rule kept_trans[OF r1(1)])
    have "Vector_Resize env n (v, w) =
          (case uninitialized_default_construct_n env
                    (ptr_add (RawMemory_GetAddress (data_m v1)) (size_m v1)) (n - size_m v1) w1 of
             Return d w' \<Rightarrow> Return () (v1\<lparr>size_m := n\<rparr>, w') | Throw e w' \<Rightarrow> Throw e (v1, w') | Fault \<Rightarrow> Fault)"
      using False Return s1 by (simp add: Vector_Resize_def)
    then show ?thesis
      using ends_member[OF k r1(2), where f = "\<lambda>_. v1\<lparr>size_m := n\<rparr>" and g = "\<lambda>_. ()"] r1(2) by simp
  next
    case (Throw e s1)
    then show ?thesis using R False by (simp add: Vector_Resize_def)
  next
    case Fault
    then show ?thesis using False by (simp add: Vector_Resize_def)
  qed
qed

theorem PopBack_kept:
  assumes own: "V \<inter> own v = {}"
  shows "ends (Vector_PopBack (v, w)) (\<lambda>s. kept V w (snd s) \<and> V \<inter> own (fst s) = {})"
proof (cases "0 < size_m v")
  case True
  note o = outside_buffer[OF own]
  have k: "ends (destroy_at (ptr_add (RawMemory_GetAddress (data_m v)) (size_m v - 1)) w) (kept V w)"
    using o by (intro destroy_at_kept) simp
  have "Vector_PopBack (v, w) =
          (case destroy_at (ptr_add (RawMemory_GetAddress (data_m v)) (size_m v - 1)) w of
             Return d w' \<Rightarrow> Return () (v\<lparr>size_m := size_m v - 1\<rparr>, w') | Throw e w' \<Rightarrow> Throw e (v, w') | Fault \<Rightarrow> Fault)"
    using True by (simp add: Vector_PopBack_def)
  then show ?thesis
    using ends_member[OF k own, where f = "\<lambda>_. v\<lparr>size_m := size_m v - 1\<rparr>" and g = "\<lambda>_. ()"] own by simp
next
  case False
  then show ?thesis by (simp add: Vector_PopBack_def)
qed

lemma Emplace_grow_kept:
  assumes sub: "V \<subseteq> {..<length (heap w)}" and own: "V \<inter> own v = {}"
  shows "ends (Emplace_grow env v offset a w) (kept V w)"
    and "Emplace_grow env v offset a w = Return d w' \<Longrightarrow> outside V (buffer_m d)"
proof -
  note o = outside_buffer[OF own]
  let ?body = "\<lambda>new_data.
          (bind (construct_at env (ptr_add (RawMemory_GetAddress new_data) offset) a) (\<lambda>_.
           bind (catch_rethrow derives_std_exception
                   (destroy_at (ptr_add (RawMemory_GetAddress new_data) offset))
                   (bind (relocate_n env (Vector_begin v) offset (RawMemory_GetAddress new_data)) (\<lambda>_.
                      catch_rethrow derives_std_exception
                        (destroy_n (RawMemory_GetAddress new_data) (size_t (offset + 1)))
                        (relocate_n env (ptr_add (Vector_begin v) offset) (size_t_sub (size_m v) offset)
                           (ptr_add (ptr_add (RawMemory_GetAddress new_data) offset) 1))))) (\<lambda>_.
           bind (destroy_n (Vector_begin v) (size_m v)) (\<lambda>_.
           (case RawMemory_Swap (data_m v) new_data of
              (d, nd) \<Rightarrow> bind (RawMemory_dtor nd) (\<lambda>_. Return d))))))"
  have b: "ends (?body nd w1) (kept V w1)" if "outside V (buffer_m nd)" for nd w1
    using that o
    by (intro ends_bind_kept ends_catch_kept construct_at_kept relocate_n_kept destroy_n_kept destroy_at_kept)
       (simp_all add: RawMemory_dtor_kept ends_bind_kept)
  have E: "Emplace_grow env v offset a w =
     bind (RawMemory_ctor env (max 1 (size_t (Vector_Capacity v * 2))))
       (\<lambda>new_data. catch_rethrow catch_all (RawMemory_dtor new_data) (?body new_data)) w"
    by (simp add: Emplace_grow_def Let_def)
  show "ends (Emplace_grow env v offset a w) (kept V w)"
    unfolding E by (rule guarded_buffer_kept[OF sub b])
  show "outside V (buffer_m d)" if "Emplace_grow env v offset a w = Return d w'"
    by (rule guarded_buffer_value[OF that[unfolded E] sub]) (auto simp: bind_Return_iff)
qed

lemma Emplace_shift_kept:
  assumes own: "V \<inter> own v = {}"
  shows "ends (Emplace_shift env v offset a w) (kept V w)"
proof -
  note o = outside_buffer[OF own]
  have body: "ends (case RawMemory_index (data_m v) (size_t_sub (size_m v) 1) of
                     None \<Rightarrow> Fault
                   | Some back \<Rightarrow>
                       bind (move_construct env (Vector_end v) back) (\<lambda>_.
                         if size_m v - 1 < offset then (\<lambda>_. Fault)
                         else move_backward env (ptr_add (Vector_begin v) offset) (size_m v - 1 - offset)
                                (ptr_add (Vector_begin v) (offset + 1))) w1) (kept V w1)" for w1
  proof (cases "RawMemory_index (data_m v) (size_t_sub (size_m v) 1)")
    case None
    then show ?thesis by simp
  next
    case (Some bk)
    have ob: "outside V bk" using outside_index[OF Some] o by simp
    show ?thesis
      unfolding Some option.case
      using o ob by (intro ends_bind_kept move_construct_kept) (simp_all add: move_backward_kept)
  qed
  have fin: "ends (case RawMemory_index (data_m v) offset of
       None \<Rightarrow> Fault
     | Some p \<Rightarrow> move_assign_tmp env p tmp w1) (kept V w1)" for tmp w1
  proof (cases "RawMemory_index (data_m v) offset")
    case None
    then show ?thesis by simp
  next
    case (Some p)
    have "outside V p" using outside_index[OF Some] o by simp
    then show ?thesis unfolding Some option.case by (rule move_assign_tmp_kept)
  qed
  show ?thesis
    unfolding Emplace_shift_def
    using o
    by (intro ends_bind_kept ends_catch_kept construct_tmp_kept body fin destroy_at_kept) simp
qed

theorem Emplace_kept:
  assumes sub: "V \<subseteq> {..<length (heap w)}" and own: "V \<inter> own v = {}"
    and pos: "blk pos = blk (buffer_m (data_m v))"
  shows "ends (Vector_Emplace env pos a (v, w)) (\<lambda>s. kept V w (snd s) \<and> V \<inter> own (fst s) = {})"
proof (cases "ptr_diff pos (Vector_begin v)")
  case None
  then show ?thesis by (simp add: Vector_Emplace_def)
next
  case (Some offset)
  note o = outside_buffer[OF own]
  show ?thesis
  proof (cases "size_m v = Vector_Capacity v")
    case True
    have val: "V \<inter> own (v\<lparr>data_m := d, size_m := size_t (size_m v + 1)\<rparr>) = {}"
      if "Emplace_grow env v offset a w = Return d w'" for d w'
      using Emplace_grow_kept(2)[OF sub own that] by (simp add: outside_own_iff own_def)
    have "Vector_Emplace env pos a (v, w) =
          (case Emplace_grow env v offset a w of
             Return d w' \<Rightarrow> Return (ptr_add (buffer_m d) offset) (v\<lparr>data_m := d, size_m := size_t (size_m v + 1)\<rparr>, w')
           | Throw e w' \<Rightarrow> Throw e (v, w') | Fault \<Rightarrow> Fault)"
      using True Some
      by (cases "Emplace_grow env v offset a w")
         (simp_all add: Vector_Emplace_def Let_def Vector_begin_def RawMemory_GetAddress_def)
    then show ?thesis
      using ends_member[OF Emplace_grow_kept(1)[OF sub own] own val,
          where g = "\<lambda>d. ptr_add (buffer_m d) offset"] by simp
  next
    case False
    let ?step = "if pos = Vector_end v
                  then (case RawMemory_plus (data_m v) offset of
                          None \<Rightarrow> Fault
                        | Some p \<Rightarrow> construct_at env p a w)
                  else Emplace_shift env v offset a w"
    have k: "ends ?step (kept V w)"
    proof (cases "pos = Vector_end v")
      case True
      show ?thesis
      proof (cases "RawMemory_plus (data_m v) offset")
        case None
        then show ?thesis using True by simp
      next
        case p: (Some p)
        have "outside V p" using outside_plus[OF p] o by simp
        then show ?thesis using True p by (simp add: construct_at_kept)
      qed
    next
      case False
      then show ?thesis by (simp add: Emplace_shift_kept[OF own])
    qed
    have "Vector_Emplace env pos a (v, w) =
          (case ?step of
             Return d w' \<Rightarrow> Return (ptr_add (Vector_begin v) offset) (v\<lparr>size_m := size_t (size_m v + 1)\<rparr>, w')
           | Throw e w' \<Rightarrow> Throw e (v, w') | Fault \<Rightarrow> Fault)"
      using False Some
      by (cases ?step)
         (simp_all add: Vector_Emplace_def Let_def Vector_begin_def RawMemory_GetAddress_def)
    then show ?thesis
      using ends_member[OF k own, where f = "\<lambda>_. v\<lparr>size_m := size_t (size_m v + 1)\<rparr>"
          and g = "\<lambda>_. ptr_add (Vector_begin v) offset"] own by simp
  qed
qed

theorem Erase_kept:
  assumes own: "V \<inter> own v = {}"
  shows "ends (Vector_Erase env pos (v, w)) (\<lambda>s. kept V w (snd s) \<and> V \<inter> own (fst s) = {})"
proof (cases "ptr_le (Vector_begin v) pos \<and> ptr_less pos (Vector_end v)")
  case False
  then show ?thesis by (simp add: Vector_Erase_def)
next
  case True
  note o = outside_buffer[OF own]
  show ?thesis
  proof (cases "ptr_diff pos (Vector_begin v)")
    case None
    then show ?thesis using True by (simp add: Vector_Erase_def)
  next
    case (Some offset)
    let ?m = "bind (std_move env (ptr_add (ptr_add (RawMemory_GetAddress (data_m v)) offset) 1)
                          (size_m v - (offset + 1)) (ptr_add (RawMemory_GetAddress (data_m v)) offset))
                    (\<lambda>_. destroy_at (ptr_add (RawMemory_GetAddress (data_m v)) (size_m v - 1)))"
    have k: "ends (?m w) (kept V w)"
      using o by (intro ends_bind_kept std_move_kept destroy_at_kept) simp_all
    have "Vector_Erase env pos (v, w) =
          (case ?m w of
             Return d w' \<Rightarrow> Return (ptr_add (RawMemory_GetAddress (data_m v)) offset) (v\<lparr>size_m := size_m v - 1\<rparr>, w')
           | Throw e w' \<Rightarrow> Throw e (v, w') | Fault \<Rightarrow> Fault)"
      using True Some by (simp add: Vector_Erase_def)
    then show ?thesis
      using ends_member[OF k own, where f = "\<lambda>_. v\<lparr>size_m := size_m v - 1\<rparr>"
          and g = "\<lambda>_. ptr_add (RawMemory_GetAddress (data_m v)) offset"] own by simp
  qed
qed

lemma Vector_copy_kept:
  assumes sub: "V \<subseteq> {..<length (heap w)}"
  shows "ends (Vector_copy env other w) (kept V w)"
    and "Vector_copy env other w = Return tmp w' \<Longrightarrow> V \<inter> own tmp = {}"
proof -
  let ?body = "\<lambda>d. bind (uninitialized_copy_n env (RawMemory_GetAddress (data_m other)) (size_m other) (RawMemory_GetAddress d))
            (\<lambda>_. Return \<lparr>data_m = d, size_m = size_m other\<rparr>)"
  have b: "ends (?body nd w1) (kept V w1)" if "outside V (buffer_m nd)" for nd w1
    using that by (intro ends_bind_kept uninitialized_copy_n_kept) simp_all
  show "ends (Vector_copy env other w) (kept V w)"
    unfolding Vector_copy_def by (rule guarded_buffer_kept[OF sub b])
  show "V \<inter> own tmp = {}" if "Vector_copy env other w = Return tmp w'"
  proof -
    have "outside V (buffer_m (data_m tmp))"
      by (rule guarded_buffer_value[OF that[unfolded Vector_copy_def] sub]) (auto simp: bind_Return_iff)
    then show ?thesis by (rule own_outside)
  qed
qed

lemma Vector_dtor_kept:
  assumes own: "V \<inter> own v = {}"
  shows "ends (Vector_dtor v w) (kept V w)"
  unfolding Vector_dtor_def
  using outside_buffer[OF own]
  by (intro ends_bind_kept destroy_n_kept RawMemory_dtor_kept) simp_all

theorem copy_assign_kept:
  assumes sub: "V \<subseteq> {..<length (heap w)}" and own: "V \<inter> own v = {}"
  shows "ends (Vector_copy_assign env r (v, w)) (\<lambda>s. kept V w (snd s) \<and> V \<inter> own (fst s) = {})"
proof (cases r)
  case This
  then show ?thesis using own by (simp add: Vector_copy_assign_def)
next
  case (Other rhs)
  note o = outside_buffer[OF own]
  show ?thesis
  proof (cases "RawMemory_Capacity (data_m v) < size_m rhs")
    case True
    note C = Vector_copy_kept[OF sub, of env rhs]
    show ?thesis
    proof (cases "Vector_copy env rhs w")
      case (Return tmp w1)
      have k1: "kept V w w1" using C(1) Return by simp
      have ot: "V \<inter> own tmp = {}" by (rule C(2)[OF Return])
      have "ends (Vector_dtor v w1) (kept V w1)" by (rule Vector_dtor_kept[OF own])
      then have k: "ends (Vector_dtor v w1) (kept V w)"
        by (rule ends_mono) (rule kept_trans[OF k1])
      have "Vector_copy_assign env r (v, w) =
          (case Vector_dtor v w1 of
             Return d w' \<Rightarrow> Return () (tmp, w') | Throw e w' \<Rightarrow> Throw e (tmp, w') | Fault \<Rightarrow> Fault)"
        using True Other Return by (simp add: Vector_copy_assign_def)
      then show ?thesis
        using ends_member[OF k ot, where f = "\<lambda>_. tmp" and g = "\<lambda>_. ()"] ot by simp
    next
      case (Throw e w1)
      then show ?thesis using C(1) True Other own by (simp add: Vector_copy_assign_def)
    next
      case Fault
      then show ?thesis using True Other by (simp add: Vector_copy_assign_def)
    qed
  next
    case False
    let ?m = "bind (assign_loop env (data_m v) (data_m rhs) 0 (min (size_m v) (size_m rhs))) (\<lambda>_.
                   if size_m v < size_m rhs
                   then uninitialized_copy_n env
                          (ptr_add (RawMemory_GetAddress (data_m rhs)) (size_m v))
                          (size_m rhs - size_m v)
                          (ptr_add (RawMemory_GetAddress (data_m v)) (size_m v))
                   else destroy_n (ptr_add (RawMemory_GetAddress (data_m v)) (size_m rhs))
                          (size_m v - size_m rhs))"
    have k: "ends (?m w) (kept V w)"
      using o by (intro ends_bind_kept assign_loop_kept) (simp_all add: uninitialized_copy_n_kept destroy_n_kept)
    have "Vector_copy_assign env r (v, w) =
          (case ?m w of
             Return d w' \<Rightarrow> Return () (v\<lparr>size_m := size_m rhs\<rparr>, w') | Throw e w' \<Rightarrow> Throw e (v, w') | Fault \<Rightarrow> Fault)"
      using False Other by (simp add: Vector_copy_assign_def Let_def)
    then show ?thesis
      using ends_member[OF k own, where f = "\<lambda>_. v\<lparr>size_m := size_m rhs\<rparr>" and g = "\<lambda>_. ()"] own by simp
  qed
qed

lemma ends_bind_unit: "ends (bind m (\<lambda>_. Return ()) s) P = ends (m s) P"
  by (cases "m s") simp_all

theorem exec_kept:
  assumes sub: "V \<subseteq> {..<length (heap w)}" and own: "V \<inter> own v = {}" and opd: "V \<inter> operand c = {}"
  shows "ends (exec env c (v, w)) (\<lambda>s. kept V w (snd s) \<and> V \<inter> own (fst s) = {})"
proof (cases c)
  case (Reserve n)
  then show ?thesis using Reserve_kept[OF sub own] by simp
next
  case (Resize n)
  then show ?thesis using Resize_kept[OF sub own] by simp
next
  case PopBack
  then show ?thesis using PopBack_kept[OF own] by simp
next
  case (Emplace offset a)
  then show ?thesis
    using Emplace_kept[OF sub own, of "ptr_add (Vector_begin v) offset" env a]
    by (simp add: ends_bind_unit Vector_begin_def RawMemory_GetAddress_def)
next
  case (EmplaceBack a)
  then show ?thesis
    using Emplace_kept[OF sub own, of "Vector_end v" env a]
    by (simp add: ends_bind_unit Vector_EmplaceBack_def Vector_end_def RawMemory_GetAddress_def)
next
  case (PushBack a)
  then show ?thesis
    using Emplace_kept[OF sub own, of "Vector_end v" env a]
    by (simp add: ends_bind_unit Vector_PushBack_def Vector_EmplaceBack_def Vector_end_def RawMemory_GetAddress_def)
next
  case (Insert offset a)
  then show ?thesis
    using Emplace_kept[OF sub own, of "ptr_add (Vector_begin v) offset" env a]
    by (simp add: ends_bind_unit Vector_Insert_def Vector_begin_def RawMemory_GetAddress_def)
next
  case (Erase offset)
  then show ?thesis using Erase_kept[OF own] by (simp add: ends_bind_unit)
next
  case (AssignAt i x)
  show ?thesis
  proof (cases "Vector_index v i")
    case None
    then show ?thesis using AssignAt by simp
  next
    case (Some p)
    then have "outside V p"
      using outside_buffer[OF own] by (auto simp: Vector_index_def split: if_splits)
    then have k: "ends (move_assign_tmp env p x w) (kept V w)" by (rule move_assign_tmp_kept)
    have "exec env c (v, w) =
          (case move_assign_tmp env p x w of
             Return d w' \<Rightarrow> Return () (v, w') | Throw e w' \<Rightarrow> Throw e (v, w') | Fault \<Rightarrow> Fault)"
      using AssignAt Some by (cases "move_assign_tmp env p x w") simp_all
    then show ?thesis
      using ends_member[OF k own, where f = "\<lambda>_. v" and g = "\<lambda>_. ()"] own by simp
  qed
next
  case (AssignFrom r)
  then show ?thesis using copy_assign_kept[OF sub own] by simp
next
  case (MoveFrom rhs)
  then show ?thesis using opd by (simp add: Vector_move_assign_def)
next
  case (SwapWith other)
  then show ?thesis using opd by simp
qed

theorem run_calls_kept:
  assumes "V \<subseteq> {..<length (heap w)}" and "V \<inter> own v = {}" and "\<forall>c\<in>set cs. V \<inter> operand c = {}"
  shows "ends (run_calls env cs (v, w)) (\<lambda>s. kept V w (snd s) \<and> V \<inter> own (fst s) = {})"
  using assms
proof (induction cs arbitrary: v w)
  case Nil
  then show ?case by simp
next
  case (Cons c cs)
  have E: "ends (exec env c (v, w)) (\<lambda>s. kept V w (snd s) \<and> V \<inter> own (fst s) = {})"
    using Cons.prems by (intro exec_kept) simp_all
  show ?case
  proof (cases "exec env c (v, w)")
    case (Return u s1)
    obtain v1 w1 where s1: "s1 = (v1, w1)" by (cases s1)
    from E Return s1 have r1: "kept V w w1" "V \<inter> own v1 = {}" by simp_all
    have "V \<subseteq> {..<length (heap w1)}" using Cons.prems(1) r1(1) by (auto simp: kept_def)
    from Cons.IH[OF this r1(2)] Cons.prems(3)
    have "ends (run_calls env cs (v1, w1)) (\<lambda>s. kept V w1 (snd s) \<and> V \<inter> own (fst s) = {})" by simp
    then have "ends (run_calls env cs (v1, w1)) (\<lambda>s. kept V w (snd s) \<and> V \<inter> own (fst s) = {})"
      by (rule ends_mono) (use r1(1) in \<open>auto intro: kept_trans\<close>)
    then show ?thesis using Return s1 by simp
  next
    case (Throw e s1)
    then show ?thesis using E by simp
  next
    case Fault
    then show ?thesis by simp
  qed
qed


section \<open>Creating raw storage\<close>

text \<open>
  C2. \<^verbatim>\<open>RawMemory(capacity)\<close> is to fail with an allocation error when
  \<^verbatim>\<open>capacity * sizeof(T)\<close> overflows \<^verbatim>\<open>size_t\<close>. \<^verbatim>\<open>Allocate\<close> multiplies without a check. With
  8-byte elements and capacity \<open>2^61 + 1\<close> the product is beyond \<^verbatim>\<open>SIZE_MAX\<close>; it wraps to 8,
  the request for 8 bytes is granted, and the constructor returns a buffer that records
  capacity \<open>2^61 + 1\<close> over a block of one slot.
\<close>

theorem RawMemory_ctor_overflow:
  "SIZE_MAX < (2 ^ 61 + 1) * sizeof (elem_type 8 True True never) \<and>
   \<not> allocation_fails (elem_type 8 True True never) empty_world 8 \<and>
   RawMemory_ctor (elem_type 8 True True never) (2 ^ 61 + 1) empty_world =
     Return \<lparr>buffer_m = Ptr (Some 0) 0, capacity_m = 2 ^ 61 + 1\<rparr>
       (mk_world [Some [Raw]] [8] [] [])"
  by (simp add: RawMemory_ctor_def RawMemory_Allocate_def operator_new_def allocation_fails_def
      size_t_def bind_def elem_type_def empty_world_def mk_world_def SIZE_MAX_def PTRDIFF_MAX_def never_def)

section \<open>Move assignment\<close>

text \<open>
  C5. After \<^verbatim>\<open>a = std::move(b)\<close> the object \<open>a\<close> has the buffer and the size \<open>b\<close> had and
  \<open>b\<close> has those \<open>a\<close> had, so each reads the elements the other held; \<open>b\<close> is not emptied.
\<close>

theorem move_assign_swaps:
  "Vector_move_assign a b = (b, a) \<and>
   elements w (fst (Vector_move_assign a b)) = elements w b \<and>
   Vector_Size (fst (Vector_move_assign a b)) = Vector_Size b \<and>
   Vector_Capacity (fst (Vector_move_assign a b)) = Vector_Capacity b \<and>
   elements w (snd (Vector_move_assign a b)) = elements w a \<and>
   Vector_Size (snd (Vector_move_assign a b)) = Vector_Size a \<and>
   Vector_Capacity (snd (Vector_move_assign a b)) = Vector_Capacity a"
proof -
  have swap: "Vector_move_assign a b = (b, a)"
    by (simp add: Vector_move_assign_def Vector_Swap_def RawMemory_Swap_def)
  show ?thesis
    unfolding swap by simp
qed

section \<open>Reserve beyond the addressable size\<close>

text \<open>
  C7. \<^verbatim>\<open>Reserve(n)\<close> with \<open>n\<close> above the capacity is to give capacity \<open>n\<close> and keep size and
  elements, for every \<open>n\<close>. With 8-byte elements and \<open>n = 2^61 + 1\<close> the byte count
  \<^verbatim>\<open>n * sizeof(T)\<close> wraps to 8 in \<^verbatim>\<open>RawMemory::Allocate\<close> and the new buffer has one slot.
  On the array \<open>[1, 2]\<close> the relocation of the second element writes past that block: the
  call has no defined outcome. On the array \<open>[1]\<close> the call returns with capacity
  \<open>2^61 + 1\<close> recorded over a block of one slot.
\<close>

theorem Reserve_overflow:
  "represents (elem_type 8 True True never) (mk_world [Some [Obj 1, Obj 2]] [] [] []) (vec 0 2 2) [1, 2] \<and>
   Vector_Capacity (vec 0 2 2) < 2 ^ 61 + 1 \<and>
   SIZE_MAX < (2 ^ 61 + 1) * sizeof (elem_type 8 True True never) \<and>
   RawMemory_ctor (elem_type 8 True True never) (2 ^ 61 + 1) (mk_world [Some [Obj 1, Obj 2]] [] [] []) =
     Return \<lparr>buffer_m = Ptr (Some 1) 0, capacity_m = 2 ^ 61 + 1\<rparr>
       (mk_world [Some [Obj 1, Obj 2], Some [Raw]] [8] [] []) \<and>
   Vector_Reserve (elem_type 8 True True never) (2 ^ 61 + 1)
       (vec 0 2 2, mk_world [Some [Obj 1, Obj 2]] [] [] []) = Fault \<and>
   represents (elem_type 8 True True never) (mk_world [Some [Obj 1]] [] [] []) (vec 0 1 1) [1] \<and>
   Vector_Reserve (elem_type 8 True True never) (2 ^ 61 + 1)
       (vec 0 1 1, mk_world [Some [Obj 1]] [] [] []) =
     Return () (vec 1 (2 ^ 61 + 1) 1, mk_world [None, Some [Obj 1]] [8] [MoveCtor 1] [Ptr (Some 0) 0]) \<and>
   block_at (mk_world [None, Some [Obj 1]] [8] [MoveCtor 1] [Ptr (Some 0) 0]) 1 = Some [Obj 1]"
  by (simp add: model_defs)

section \<open>Resize beyond the addressable size\<close>

text \<open>
  C8. \<^verbatim>\<open>Resize(n)\<close> with \<open>n\<close> above the size is to reserve \<open>n\<close> slots, default-construct the
  range \<open>[Size(), n)\<close> and set the size to \<open>n\<close>, for every \<open>n\<close>. With 8-byte elements and
  \<open>n = 2^61 + 1\<close> on the array \<open>[1, 2]\<close> the call to \<^verbatim>\<open>Reserve(n)\<close> obtains a block of one
  slot, because \<^verbatim>\<open>n * sizeof(T)\<close> wraps in \<^verbatim>\<open>RawMemory::Allocate\<close>, and writes past it:
  \<^verbatim>\<open>Resize\<close> has no defined outcome.
\<close>

theorem Resize_overflow:
  "represents (elem_type 8 True True never) (mk_world [Some [Obj 1, Obj 2]] [] [] []) (vec 0 2 2) [1, 2] \<and>
   Vector_Size (vec 0 2 2) < 2 ^ 61 + 1 \<and>
   SIZE_MAX < (2 ^ 61 + 1) * sizeof (elem_type 8 True True never) \<and>
   Vector_Reserve (elem_type 8 True True never) (2 ^ 61 + 1)
       (vec 0 2 2, mk_world [Some [Obj 1, Obj 2]] [] [] []) = Fault \<and>
   Vector_Resize (elem_type 8 True True never) (2 ^ 61 + 1)
       (vec 0 2 2, mk_world [Some [Obj 1, Obj 2]] [] [] []) = Fault"
  by (simp add: model_defs)

section \<open>Erase, then Insert\<close>

text \<open>
  C9. On a non-empty array holding \<open>xs\<close>, for a position \<open>p\<close> in \<open>[begin(), end())\<close> at offset
  \<open>i\<close> and a value given by \<open>a\<close>: whenever \<^verbatim>\<open>Erase(p)\<close> returns and \<^verbatim>\<open>Insert(p, x)\<close> then
  returns, the size is the original size and the array holds \<open>xs\<close> with the element at \<open>i\<close>
  replaced by \<open>x\<close>; and when no operation of the element type throws, both calls do return,
  with that result.
\<close>

theorem Erase_then_Insert:
  assumes "represents env w v xs" and "i < length xs" and "p = ptr_add (Vector_begin v) i"
  shows "(\<forall>q1 v1 w1 q2 v2 w2.
            Vector_Erase env p (v, w) = Return q1 (v1, w1) \<longrightarrow>
            Vector_Insert env p a (v1, w1) = Return q2 (v2, w2) \<longrightarrow>
            Vector_Size v2 = Vector_Size v \<and> elements w2 v2 = Some (xs[i := arg_value a]) \<and>
            represents env w2 v2 (xs[i := arg_value a])) \<and>
         (no_throw env \<longrightarrow>
            (\<exists>q1 v1 w1 q2 v2 w2.
               Vector_Erase env p (v, w) = Return q1 (v1, w1) \<and>
               Vector_Insert env p a (v1, w1) = Return q2 (v2, w2) \<and>
               Vector_Size v2 = Vector_Size v \<and> elements w2 v2 = Some (xs[i := arg_value a])))"
proof -
  let ?ys = "take i xs @ drop (Suc i) xs"
  have le: "i \<le> length ?ys" using assms(2) by simp
  have upd: "take i ?ys @ arg_value a # drop i ?ys = xs[i := arg_value a]"
    using assms(2) by (simp add: upd_conv_take_nth_drop min_def)
  have A: "Vector_Size v2 = Vector_Size v \<and> elements w2 v2 = Some (xs[i := arg_value a]) \<and>
           represents env w2 v2 (xs[i := arg_value a])"
    if e: "Vector_Erase env p (v, w) = Return q1 (v1, w1)"
      and n: "Vector_Insert env p a (v1, w1) = Return q2 (v2, w2)"
    for q1 v1 w1 q2 v2 w2
  proof -
    note E = Erase_Return[OF assms(1,2) e[unfolded assms(3)]]
    have beg: "Vector_begin v1 = Vector_begin v" using E(3) by (simp add: Vector_begin_def)
    have ins: "Vector_Emplace env (ptr_add (Vector_begin v1) i) a (v1, w1) = Return q2 (v2, w2)"
      using n by (simp add: Vector_Insert_def assms(3) beg)
    note I = Emplace_Return[OF E(1) le ins]
    have r: "represents env w2 v2 (xs[i := arg_value a])" using I(1) upd by simp
    show ?thesis
      using r represents_elements[OF r] represents_bounds(1)[OF r] represents_bounds(1)[OF assms(1)]
      by (simp add: Vector_Size_def)
  qed
  have B: "\<exists>q1 v1 w1 q2 v2 w2.
               Vector_Erase env p (v, w) = Return q1 (v1, w1) \<and>
               Vector_Insert env p a (v1, w1) = Return q2 (v2, w2) \<and>
               Vector_Size v2 = Vector_Size v \<and> elements w2 v2 = Some (xs[i := arg_value a])"
    if nt: "no_throw env"
  proof -
    from Erase_total[OF assms(1,2) nt] obtain q1 v1 w1 where
      e: "Vector_Erase env p (v, w) = Return q1 (v1, w1)" unfolding assms(3) by blast
    note E = Erase_Return[OF assms(1,2) e[unfolded assms(3)]]
    have beg: "Vector_begin v1 = Vector_begin v" using E(3) by (simp add: Vector_begin_def)
    have room: "size_m v1 \<noteq> capacity_m (data_m v1)"
      using represents_bounds(1)[OF E(1)] represents_bounds(2)[OF assms(1)] assms(2) E(3) by simp
    from Emplace_total[OF E(1) le nt, of a] room obtain q2 v2 w2 where
      "Vector_Emplace env (ptr_add (Vector_begin v1) i) a (v1, w1) = Return q2 (v2, w2)" by blast
    then have n: "Vector_Insert env p a (v1, w1) = Return q2 (v2, w2)"
      by (simp add: Vector_Insert_def assms(3) beg)
    from A[OF e n] e n show ?thesis by blast
  qed
  show ?thesis using A B by blast
qed

theorem Erase_then_Insert_witness:
  "represents (elem_type 4 True True never) (mk_world [Some [Obj 1, Obj 2, Obj 3]] [] [] []) (vec 0 3 3) [1, 2, 3] \<and>
   (0::nat) < length [1, 2, 3 :: nat] \<and>
   no_throw (elem_type 4 True True never) \<and>
   Vector_Erase (elem_type 4 True True never) (ptr_add (Vector_begin (vec 0 3 3)) 0)
       (vec 0 3 3, mk_world [Some [Obj 1, Obj 2, Obj 3]] [] [] []) =
     Return (Ptr (Some 0) 0)
       (vec 0 3 2, mk_world [Some [Obj 2, Obj 3, Raw]] [] [MoveAssign 1 2, MoveAssign 0 3] [Ptr (Some 0) 2]) \<and>
   Vector_Insert (elem_type 4 True True never) (ptr_add (Vector_begin (vec 0 3 3)) 0) (ByCopy 9)
       (vec 0 3 2, mk_world [Some [Obj 2, Obj 3, Raw]] [] [MoveAssign 1 2, MoveAssign 0 3] [Ptr (Some 0) 2]) =
     Return (Ptr (Some 0) 0)
       (vec 0 3 3, mk_world [Some [Obj 9, Obj 2, Obj 3]] []
          [MoveAssign 1 2, MoveAssign 0 3, CopyCtor 9, MoveCtor 3, MoveAssign 0 2, MoveAssign 0 9]
          [Ptr (Some 0) 2]) \<and>
   Vector_Size (vec 0 3 3) = Vector_Size (vec 0 3 3) \<and>
   elements (mk_world [Some [Obj 9, Obj 2, Obj 3]] []
          [MoveAssign 1 2, MoveAssign 0 3, CopyCtor 9, MoveCtor 3, MoveAssign 0 2, MoveAssign 0 9]
          [Ptr (Some 0) 2]) (vec 0 3 3) =
     Some ([1, 2, 3][0 := arg_value (ByCopy 9)]) \<and>
   (\<exists>q1 v1 w1 q2 v2 w2.
      Vector_Erase (elem_type 4 True True never) (ptr_add (Vector_begin (vec 0 3 3)) 0)
          (vec 0 3 3, mk_world [Some [Obj 1, Obj 2, Obj 3]] [] [] []) = Return q1 (v1, w1) \<and>
      Vector_Insert (elem_type 4 True True never) (ptr_add (Vector_begin (vec 0 3 3)) 0) (ByCopy 9) (v1, w1) =
        Return q2 (v2, w2) \<and>
      Vector_Size v2 = Vector_Size (vec 0 3 3) \<and>
      elements w2 v2 = Some ([1, 2, 3][0 := arg_value (ByCopy 9)]))"
proof -
  let ?env = "elem_type 4 True True never"
  let ?w = "mk_world [Some [Obj 1, Obj 2, Obj 3]] [] [] []"
  let ?wa = "mk_world [Some [Obj 2, Obj 3, Raw]] [] [MoveAssign 1 2, MoveAssign 0 3] [Ptr (Some 0) 2]"
  let ?wb = "mk_world [Some [Obj 9, Obj 2, Obj 3]] []
          [MoveAssign 1 2, MoveAssign 0 3, CopyCtor 9, MoveCtor 3, MoveAssign 0 2, MoveAssign 0 9]
          [Ptr (Some 0) 2]"
  let ?p = "ptr_add (Vector_begin (vec 0 3 3)) 0"
  have r: "represents ?env ?w (vec 0 3 3) [1, 2, 3]"
    by (simp add: model_defs)
  have i: "(0::nat) < length [1, 2, 3 :: nat]" by simp
  have nt: "no_throw ?env" by (simp add: no_throw_def elem_type_def never_def)
  have e: "Vector_Erase ?env ?p (vec 0 3 3, ?w) = Return (Ptr (Some 0) 0) (vec 0 3 2, ?wa)"
    by (simp add: model_defs)
  have n: "Vector_Insert ?env ?p (ByCopy 9) (vec 0 3 2, ?wa) = Return (Ptr (Some 0) 0) (vec 0 3 3, ?wb)"
    by (simp add: model_defs)
  note T = Erase_then_Insert[OF r i refl, of "ByCopy 9"]
  from T e n have c1: "Vector_Size (vec 0 3 3) = Vector_Size (vec 0 3 3) \<and>
        elements ?wb (vec 0 3 3) = Some ([1, 2, 3][0 := arg_value (ByCopy 9)])"
    by blast
  from T nt have c2: "\<exists>q1 v1 w1 q2 v2 w2.
      Vector_Erase ?env ?p (vec 0 3 3, ?w) = Return q1 (v1, w1) \<and>
      Vector_Insert ?env ?p (ByCopy 9) (v1, w1) = Return q2 (v2, w2) \<and>
      Vector_Size v2 = Vector_Size (vec 0 3 3) \<and>
      elements w2 v2 = Some ([1, 2, 3][0 := arg_value (ByCopy 9)])"
    by blast
  show ?thesis using r i nt e n c1 c2 by blast
qed

section \<open>Returned iterators and references\<close>

text \<open>
  C10. On an array holding \<open>xs\<close>: the iterator \<^verbatim>\<open>Emplace\<close> and \<^verbatim>\<open>Insert\<close> return is
  \<^verbatim>\<open>begin()\<close> of the array after the call plus the insertion offset, and the new element is
  there. The iterator \<^verbatim>\<open>Erase\<close> returns is \<^verbatim>\<open>begin()\<close> plus the offset of the erased
  element; the element that followed it is there, or it is \<^verbatim>\<open>end()\<close> when the last element
  was erased. The reference \<^verbatim>\<open>EmplaceBack\<close> returns is the address of the last element of
  the array after the call, which is the new element. The calls do return: \<^verbatim>\<open>Erase\<close> when
  no operation of the element type throws, the three insertions when moreover the
  allocation of the larger buffer, where the array is full, succeeds.
\<close>

theorem returned_positions:
  assumes "represents env w v xs"
  shows
    "(\<forall>i a p v' w'. i \<le> length xs \<longrightarrow>
        Vector_Emplace env (ptr_add (Vector_begin v) i) a (v, w) = Return p (v', w') \<longrightarrow>
        p = ptr_add (Vector_begin v') i \<and> obj_at w' p = Some (arg_value a)) \<and>
     (\<forall>i a p v' w'. i \<le> length xs \<longrightarrow>
        Vector_Insert env (ptr_add (Vector_begin v) i) a (v, w) = Return p (v', w') \<longrightarrow>
        p = ptr_add (Vector_begin v') i \<and> obj_at w' p = Some (arg_value a)) \<and>
     (\<forall>i p v' w'. i < length xs \<longrightarrow>
        Vector_Erase env (ptr_add (Vector_begin v) i) (v, w) = Return p (v', w') \<longrightarrow>
        p = ptr_add (Vector_begin v') i \<and>
        (if Suc i < length xs then obj_at w' p = Some (xs ! Suc i) else p = Vector_end v')) \<and>
     (\<forall>a p v' w'. Vector_EmplaceBack env a (v, w) = Return p (v', w') \<longrightarrow>
        Vector_Size v' = Suc (Vector_Size v) \<and>
        p = ptr_add (Vector_begin v') (Vector_Size v' - 1) \<and> obj_at w' p = Some (arg_value a)) \<and>
     (no_throw env \<longrightarrow>
        (\<forall>i. i < length xs \<longrightarrow>
           (\<exists>p v' w'. Vector_Erase env (ptr_add (Vector_begin v) i) (v, w) = Return p (v', w')))) \<and>
     (no_throw env \<and>
      (Vector_Size v = Vector_Capacity v \<longrightarrow>
         \<not> allocation_fails env w (max 1 (2 * Vector_Capacity v) * sizeof env)) \<longrightarrow>
        (\<forall>i a. i \<le> length xs \<longrightarrow>
           (\<exists>p v' w'. Vector_Emplace env (ptr_add (Vector_begin v) i) a (v, w) = Return p (v', w'))) \<and>
        (\<forall>i a. i \<le> length xs \<longrightarrow>
           (\<exists>p v' w'. Vector_Insert env (ptr_add (Vector_begin v) i) a (v, w) = Return p (v', w'))) \<and>
        (\<forall>a. \<exists>p v' w'. Vector_EmplaceBack env a (v, w) = Return p (v', w')))"
proof -
  note rb = represents_bounds[OF assms]
  have emplace: "p = ptr_add (Vector_begin v') i \<and> obj_at w' p = Some (arg_value a) \<and> size_m v' = Suc (length xs)"
    if "i \<le> length xs" "Vector_Emplace env (ptr_add (Vector_begin v) i) a (v, w) = Return p (v', w')"
    for i a p v' w'
  proof -
    note E = Emplace_Return[OF assms that]
    have "i < length (take i xs @ arg_value a # drop i xs)" using that(1) by simp
    from represents_obj_at[OF E(1) this] that(1)
    have "obj_at w' (ptr_add (Vector_begin v') i) = Some (arg_value a)"
      by (simp add: nth_append)
    then show ?thesis using E(2) represents_bounds(1)[OF E(1)] that(1) by simp
  qed
  have erase: "p = ptr_add (Vector_begin v') i \<and>
        (if Suc i < length xs then obj_at w' p = Some (xs ! Suc i) else p = Vector_end v')"
    if "i < length xs" "Vector_Erase env (ptr_add (Vector_begin v) i) (v, w) = Return p (v', w')"
    for i p v' w'
  proof -
    note E = Erase_Return[OF assms that]
    have sz: "size_m v' = length xs - 1" using represents_bounds(1)[OF E(1)] that(1) by simp
    show ?thesis
    proof (cases "Suc i < length xs")
      case True
      then have "i < length (take i xs @ drop (Suc i) xs)" by simp
      from represents_obj_at[OF E(1) this] True
      have "obj_at w' (ptr_add (Vector_begin v') i) = Some (xs ! Suc i)"
        by (simp add: nth_append)
      then show ?thesis using E(2) True by simp
    next
      case False
      then have "i = length xs - 1" using that(1) by simp
      then show ?thesis
        using E(2) False sz by (simp add: Vector_end_def Vector_begin_def)
    qed
  qed
  have eb: "Vector_EmplaceBack env a (v, w) = Vector_Emplace env (ptr_add (Vector_begin v) (length xs)) a (v, w)"
    for a
    using rb(1) by (simp add: Vector_EmplaceBack_def Vector_end_def Vector_begin_def)
  have eback: "Vector_Size v' = Suc (Vector_Size v) \<and>
        p = ptr_add (Vector_begin v') (Vector_Size v' - 1) \<and> obj_at w' p = Some (arg_value a)"
    if "Vector_EmplaceBack env a (v, w) = Return p (v', w')" for a p v' w'
  proof -
    have "Vector_Emplace env (ptr_add (Vector_begin v) (length xs)) a (v, w) = Return p (v', w')"
      using that by (simp add: eb)
    from emplace[OF le_refl this] show ?thesis using rb(1) by (auto simp: Vector_Size_def)
  qed
  have p1: "\<forall>i a p v' w'. i \<le> length xs \<longrightarrow>
        Vector_Emplace env (ptr_add (Vector_begin v) i) a (v, w) = Return p (v', w') \<longrightarrow>
        p = ptr_add (Vector_begin v') i \<and> obj_at w' p = Some (arg_value a)"
    using emplace by blast
  have p2: "\<forall>i a p v' w'. i \<le> length xs \<longrightarrow>
        Vector_Insert env (ptr_add (Vector_begin v) i) a (v, w) = Return p (v', w') \<longrightarrow>
        p = ptr_add (Vector_begin v') i \<and> obj_at w' p = Some (arg_value a)"
    unfolding Vector_Insert_def by (rule p1)
  have p3: "\<forall>i p v' w'. i < length xs \<longrightarrow>
        Vector_Erase env (ptr_add (Vector_begin v) i) (v, w) = Return p (v', w') \<longrightarrow>
        p = ptr_add (Vector_begin v') i \<and>
        (if Suc i < length xs then obj_at w' p = Some (xs ! Suc i) else p = Vector_end v')"
    using erase by blast
  have p4: "\<forall>a p v' w'. Vector_EmplaceBack env a (v, w) = Return p (v', w') \<longrightarrow>
        Vector_Size v' = Suc (Vector_Size v) \<and>
        p = ptr_add (Vector_begin v') (Vector_Size v' - 1) \<and> obj_at w' p = Some (arg_value a)"
    using eback by blast
  have p5: "no_throw env \<longrightarrow>
        (\<forall>i. i < length xs \<longrightarrow>
           (\<exists>p v' w'. Vector_Erase env (ptr_add (Vector_begin v) i) (v, w) = Return p (v', w')))"
    using Erase_total[OF assms] by blast
  have p6: "no_throw env \<and>
      (Vector_Size v = Vector_Capacity v \<longrightarrow>
         \<not> allocation_fails env w (max 1 (2 * Vector_Capacity v) * sizeof env)) \<longrightarrow>
        (\<forall>i a. i \<le> length xs \<longrightarrow>
           (\<exists>p v' w'. Vector_Emplace env (ptr_add (Vector_begin v) i) a (v, w) = Return p (v', w'))) \<and>
        (\<forall>i a. i \<le> length xs \<longrightarrow>
           (\<exists>p v' w'. Vector_Insert env (ptr_add (Vector_begin v) i) a (v, w) = Return p (v', w'))) \<and>
        (\<forall>a. \<exists>p v' w'. Vector_EmplaceBack env a (v, w) = Return p (v', w'))"
  proof (intro impI)
    assume h: "no_throw env \<and>
      (Vector_Size v = Vector_Capacity v \<longrightarrow>
         \<not> allocation_fails env w (max 1 (2 * Vector_Capacity v) * sizeof env))"
    then have nt: "no_throw env"
      and al: "size_m v = capacity_m (data_m v) \<longrightarrow>
             \<not> allocation_fails env w (max 1 (2 * capacity_m (data_m v)) * sizeof env)"
      by (simp_all add: Vector_Size_def Vector_Capacity_def RawMemory_Capacity_def)
    have t: "\<exists>p v' w'. Vector_Emplace env (ptr_add (Vector_begin v) i) a (v, w) = Return p (v', w')"
      if "i \<le> length xs" for i a
      by (rule Emplace_total[OF assms that nt al])
    show "(\<forall>i a. i \<le> length xs \<longrightarrow>
           (\<exists>p v' w'. Vector_Emplace env (ptr_add (Vector_begin v) i) a (v, w) = Return p (v', w'))) \<and>
        (\<forall>i a. i \<le> length xs \<longrightarrow>
           (\<exists>p v' w'. Vector_Insert env (ptr_add (Vector_begin v) i) a (v, w) = Return p (v', w'))) \<and>
        (\<forall>a. \<exists>p v' w'. Vector_EmplaceBack env a (v, w) = Return p (v', w'))"
      unfolding Vector_Insert_def eb using t by blast
  qed
  show ?thesis
    by (rule conjI[OF p1 conjI[OF p2 conjI[OF p3 conjI[OF p4 conjI[OF p5 p6]]]]])
qed

theorem returned_positions_witness:
  "represents (elem_type 4 True True never) (mk_world [Some [Obj 1, Obj 2, Obj 3, Raw]] [] [] []) (vec 0 4 3) [1, 2, 3] \<and>
   represents (elem_type 4 True True never) (mk_world [Some [Obj 1, Obj 2]] [] [] []) (vec 0 2 2) [1, 2] \<and>
   no_throw (elem_type 4 True True never) \<and>
   Vector_Size (vec 0 4 3) \<noteq> Vector_Capacity (vec 0 4 3) \<and>
   Vector_Size (vec 0 2 2) = Vector_Capacity (vec 0 2 2) \<and>
   \<not> allocation_fails (elem_type 4 True True never) (mk_world [Some [Obj 1, Obj 2]] [] [] [])
       (max 1 (2 * Vector_Capacity (vec 0 2 2)) * sizeof (elem_type 4 True True never)) \<and>
   Vector_Emplace (elem_type 4 True True never) (ptr_add (Vector_begin (vec 0 4 3)) 1) (ByArgs 9)
       (vec 0 4 3, mk_world [Some [Obj 1, Obj 2, Obj 3, Raw]] [] [] []) =
     Return (Ptr (Some 0) 1)
       (vec 0 4 4, mk_world [Some [Obj 1, Obj 9, Obj 2, Obj 3]] []
          [ArgsCtor 9, MoveCtor 3, MoveAssign 0 2, MoveAssign 0 9] []) \<and>
   Ptr (Some 0) 1 = ptr_add (Vector_begin (vec 0 4 4)) 1 \<and>
   obj_at (mk_world [Some [Obj 1, Obj 9, Obj 2, Obj 3]] []
          [ArgsCtor 9, MoveCtor 3, MoveAssign 0 2, MoveAssign 0 9] []) (Ptr (Some 0) 1) =
     Some (arg_value (ByArgs 9)) \<and>
   Vector_Insert (elem_type 4 True True never) (ptr_add (Vector_begin (vec 0 4 3)) 0) (ByCopy 8)
       (vec 0 4 3, mk_world [Some [Obj 1, Obj 2, Obj 3, Raw]] [] [] []) =
     Return (Ptr (Some 0) 0)
       (vec 0 4 4, mk_world [Some [Obj 8, Obj 1, Obj 2, Obj 3]] []
          [CopyCtor 8, MoveCtor 3, MoveAssign 0 2, MoveAssign 0 1, MoveAssign 0 8] []) \<and>
   Ptr (Some 0) 0 = ptr_add (Vector_begin (vec 0 4 4)) 0 \<and>
   obj_at (mk_world [Some [Obj 8, Obj 1, Obj 2, Obj 3]] []
          [CopyCtor 8, MoveCtor 3, MoveAssign 0 2, MoveAssign 0 1, MoveAssign 0 8] []) (Ptr (Some 0) 0) =
     Some (arg_value (ByCopy 8)) \<and>
   Vector_Erase (elem_type 4 True True never) (ptr_add (Vector_begin (vec 0 4 3)) 0)
       (vec 0 4 3, mk_world [Some [Obj 1, Obj 2, Obj 3, Raw]] [] [] []) =
     Return (Ptr (Some 0) 0)
       (vec 0 4 2, mk_world [Some [Obj 2, Obj 3, Raw, Raw]] [] [MoveAssign 1 2, MoveAssign 0 3]
          [Ptr (Some 0) 2]) \<and>
   obj_at (mk_world [Some [Obj 2, Obj 3, Raw, Raw]] [] [MoveAssign 1 2, MoveAssign 0 3] [Ptr (Some 0) 2])
       (Ptr (Some 0) 0) = Some ([1, 2, 3] ! Suc 0) \<and>
   Vector_Erase (elem_type 4 True True never) (ptr_add (Vector_begin (vec 0 4 3)) 2)
       (vec 0 4 3, mk_world [Some [Obj 1, Obj 2, Obj 3, Raw]] [] [] []) =
     Return (Ptr (Some 0) 2) (vec 0 4 2, mk_world [Some [Obj 1, Obj 2, Raw, Raw]] [] [] [Ptr (Some 0) 2]) \<and>
   Ptr (Some 0) 2 = Vector_end (vec 0 4 2) \<and>
   Vector_EmplaceBack (elem_type 4 True True never) (ByArgs 9)
       (vec 0 4 3, mk_world [Some [Obj 1, Obj 2, Obj 3, Raw]] [] [] []) =
     Return (Ptr (Some 0) 3) (vec 0 4 4, mk_world [Some [Obj 1, Obj 2, Obj 3, Obj 9]] [] [ArgsCtor 9] []) \<and>
   Ptr (Some 0) 3 = ptr_add (Vector_begin (vec 0 4 4)) (Vector_Size (vec 0 4 4) - 1) \<and>
   obj_at (mk_world [Some [Obj 1, Obj 2, Obj 3, Obj 9]] [] [ArgsCtor 9] []) (Ptr (Some 0) 3) =
     Some (arg_value (ByArgs 9)) \<and>
   Vector_Emplace (elem_type 4 True True never) (ptr_add (Vector_begin (vec 0 2 2)) 1) (ByArgs 9)
       (vec 0 2 2, mk_world [Some [Obj 1, Obj 2]] [] [] []) =
     Return (Ptr (Some 1) 1)
       (vec 1 4 3, mk_world [None, Some [Obj 1, Obj 9, Obj 2, Raw]] [16]
          [ArgsCtor 9, MoveCtor 1, MoveCtor 2] [Ptr (Some 0) 0, Ptr (Some 0) 1]) \<and>
   Ptr (Some 1) 1 = ptr_add (Vector_begin (vec 1 4 3)) 1 \<and>
   obj_at (mk_world [None, Some [Obj 1, Obj 9, Obj 2, Raw]] [16]
          [ArgsCtor 9, MoveCtor 1, MoveCtor 2] [Ptr (Some 0) 0, Ptr (Some 0) 1]) (Ptr (Some 1) 1) =
     Some (arg_value (ByArgs 9)) \<and>
   (\<exists>p v' w'. Vector_Erase (elem_type 4 True True never) (ptr_add (Vector_begin (vec 0 4 3)) 1)
       (vec 0 4 3, mk_world [Some [Obj 1, Obj 2, Obj 3, Raw]] [] [] []) = Return p (v', w')) \<and>
   (\<exists>p v' w'. Vector_Insert (elem_type 4 True True never) (ptr_add (Vector_begin (vec 0 4 3)) 2) (ByMove 5)
       (vec 0 4 3, mk_world [Some [Obj 1, Obj 2, Obj 3, Raw]] [] [] []) = Return p (v', w')) \<and>
   (\<exists>p v' w'. Vector_EmplaceBack (elem_type 4 True True never) (ByCopy 6)
       (vec 0 2 2, mk_world [Some [Obj 1, Obj 2]] [] [] []) = Return p (v', w'))"
proof -
  let ?env = "elem_type 4 True True never"
  let ?w = "mk_world [Some [Obj 1, Obj 2, Obj 3, Raw]] [] [] []"
  let ?u = "mk_world [Some [Obj 1, Obj 2]] [] [] []"
  let ?wa = "mk_world [Some [Obj 1, Obj 9, Obj 2, Obj 3]] []
          [ArgsCtor 9, MoveCtor 3, MoveAssign 0 2, MoveAssign 0 9] []"
  let ?wb = "mk_world [Some [Obj 8, Obj 1, Obj 2, Obj 3]] []
          [CopyCtor 8, MoveCtor 3, MoveAssign 0 2, MoveAssign 0 1, MoveAssign 0 8] []"
  let ?wc = "mk_world [Some [Obj 2, Obj 3, Raw, Raw]] [] [MoveAssign 1 2, MoveAssign 0 3] [Ptr (Some 0) 2]"
  let ?wd = "mk_world [Some [Obj 1, Obj 2, Raw, Raw]] [] [] [Ptr (Some 0) 2]"
  let ?we = "mk_world [Some [Obj 1, Obj 2, Obj 3, Obj 9]] [] [ArgsCtor 9] []"
  let ?wf = "mk_world [None, Some [Obj 1, Obj 9, Obj 2, Raw]] [16]
          [ArgsCtor 9, MoveCtor 1, MoveCtor 2] [Ptr (Some 0) 0, Ptr (Some 0) 1]"
  have r: "represents ?env ?w (vec 0 4 3) [1, 2, 3]" by (simp add: model_defs)
  have s: "represents ?env ?u (vec 0 2 2) [1, 2]" by (simp add: model_defs)
  have nt: "no_throw ?env" by (simp add: no_throw_def elem_type_def never_def)
  have room: "Vector_Size (vec 0 4 3) \<noteq> Vector_Capacity (vec 0 4 3)" by (simp add: model_defs)
  have full: "Vector_Size (vec 0 2 2) = Vector_Capacity (vec 0 2 2)" by (simp add: model_defs)
  have al: "\<not> allocation_fails ?env ?u (max 1 (2 * Vector_Capacity (vec 0 2 2)) * sizeof ?env)"
    by (simp add: model_defs)
  have e1: "Vector_Emplace ?env (ptr_add (Vector_begin (vec 0 4 3)) 1) (ByArgs 9) (vec 0 4 3, ?w) =
            Return (Ptr (Some 0) 1) (vec 0 4 4, ?wa)"
    by (simp add: model_defs)
  have e2: "Vector_Insert ?env (ptr_add (Vector_begin (vec 0 4 3)) 0) (ByCopy 8) (vec 0 4 3, ?w) =
            Return (Ptr (Some 0) 0) (vec 0 4 4, ?wb)"
    by (simp add: model_defs)
  have e3: "Vector_Erase ?env (ptr_add (Vector_begin (vec 0 4 3)) 0) (vec 0 4 3, ?w) =
            Return (Ptr (Some 0) 0) (vec 0 4 2, ?wc)"
    by (simp add: model_defs)
  have e4: "Vector_Erase ?env (ptr_add (Vector_begin (vec 0 4 3)) 2) (vec 0 4 3, ?w) =
            Return (Ptr (Some 0) 2) (vec 0 4 2, ?wd)"
    by (simp add: model_defs)
  have e5: "Vector_EmplaceBack ?env (ByArgs 9) (vec 0 4 3, ?w) = Return (Ptr (Some 0) 3) (vec 0 4 4, ?we)"
    by (simp add: model_defs)
  have e6: "Vector_Emplace ?env (ptr_add (Vector_begin (vec 0 2 2)) 1) (ByArgs 9) (vec 0 2 2, ?u) =
            Return (Ptr (Some 1) 1) (vec 1 4 3, ?wf)"
    by (simp add: model_defs)
  note T = returned_positions[OF r]
  note U = returned_positions[OF s]
  have c1: "Ptr (Some 0) 1 = ptr_add (Vector_begin (vec 0 4 4)) 1 \<and>
            obj_at ?wa (Ptr (Some 0) 1) = Some (arg_value (ByArgs 9))"
    by (rule T[THEN conjunct1, rule_format, OF _ e1]) simp
  have c2: "Ptr (Some 0) 0 = ptr_add (Vector_begin (vec 0 4 4)) 0 \<and>
            obj_at ?wb (Ptr (Some 0) 0) = Some (arg_value (ByCopy 8))"
    by (rule T[THEN conjunct2, THEN conjunct1, rule_format, OF _ e2]) simp
  have "Ptr (Some 0) 0 = ptr_add (Vector_begin (vec 0 4 2)) 0 \<and>
        (if Suc 0 < length [1, 2, 3 :: nat] then obj_at ?wc (Ptr (Some 0) 0) = Some ([1, 2, 3] ! Suc 0)
         else Ptr (Some 0) 0 = Vector_end (vec 0 4 2))"
    by (rule T[THEN conjunct2, THEN conjunct2, THEN conjunct1, rule_format, OF _ e3]) simp
  from conjunct2[OF this] have c3: "obj_at ?wc (Ptr (Some 0) 0) = Some ([1, 2, 3] ! Suc 0)"
    by simp
  have "Ptr (Some 0) 2 = ptr_add (Vector_begin (vec 0 4 2)) 2 \<and>
        (if Suc 2 < length [1, 2, 3 :: nat] then obj_at ?wd (Ptr (Some 0) 2) = Some ([1, 2, 3] ! Suc 2)
         else Ptr (Some 0) 2 = Vector_end (vec 0 4 2))"
    by (rule T[THEN conjunct2, THEN conjunct2, THEN conjunct1, rule_format, OF _ e4]) simp
  from conjunct2[OF this] have c4: "Ptr (Some 0) 2 = Vector_end (vec 0 4 2)"
    by simp
  have "Vector_Size (vec 0 4 4) = Suc (Vector_Size (vec 0 4 3)) \<and>
        Ptr (Some 0) 3 = ptr_add (Vector_begin (vec 0 4 4)) (Vector_Size (vec 0 4 4) - 1) \<and>
        obj_at ?we (Ptr (Some 0) 3) = Some (arg_value (ByArgs 9))"
    by (rule T[THEN conjunct2, THEN conjunct2, THEN conjunct2, THEN conjunct1, rule_format, OF e5])
  then have c5: "Ptr (Some 0) 3 = ptr_add (Vector_begin (vec 0 4 4)) (Vector_Size (vec 0 4 4) - 1)"
    "obj_at ?we (Ptr (Some 0) 3) = Some (arg_value (ByArgs 9))"
    by blast+
  have c6: "Ptr (Some 1) 1 = ptr_add (Vector_begin (vec 1 4 3)) 1 \<and>
            obj_at ?wf (Ptr (Some 1) 1) = Some (arg_value (ByArgs 9))"
    by (rule U[THEN conjunct1, rule_format, OF _ e6]) simp
  have c7: "\<exists>p v' w'. Vector_Erase ?env (ptr_add (Vector_begin (vec 0 4 3)) 1) (vec 0 4 3, ?w) = Return p (v', w')"
    by (rule T[THEN conjunct2, THEN conjunct2, THEN conjunct2, THEN conjunct2, THEN conjunct1,
          rule_format, OF nt]) simp
  have hT: "no_throw ?env \<and>
      (Vector_Size (vec 0 4 3) = Vector_Capacity (vec 0 4 3) \<longrightarrow>
         \<not> allocation_fails ?env ?w (max 1 (2 * Vector_Capacity (vec 0 4 3)) * sizeof ?env))"
    using nt room by simp
  have hU: "no_throw ?env \<and>
      (Vector_Size (vec 0 2 2) = Vector_Capacity (vec 0 2 2) \<longrightarrow>
         \<not> allocation_fails ?env ?u (max 1 (2 * Vector_Capacity (vec 0 2 2)) * sizeof ?env))"
    using nt al by simp
  note T6 = T[THEN conjunct2, THEN conjunct2, THEN conjunct2, THEN conjunct2, THEN conjunct2, rule_format, OF hT]
  note U6 = U[THEN conjunct2, THEN conjunct2, THEN conjunct2, THEN conjunct2, THEN conjunct2, rule_format, OF hU]
  have c8: "\<exists>p v' w'. Vector_Insert ?env (ptr_add (Vector_begin (vec 0 4 3)) 2) (ByMove 5) (vec 0 4 3, ?w) =
              Return p (v', w')"
    by (rule T6[THEN conjunct2, THEN conjunct1, rule_format]) simp
  have c9: "\<exists>p v' w'. Vector_EmplaceBack ?env (ByCopy 6) (vec 0 2 2, ?u) = Return p (v', w')"
    by (rule U6[THEN conjunct2, THEN conjunct2, rule_format])
  show ?thesis
    by (intro conjI r s nt room full al e1 e2 e3 e4 e5 e6 c1[THEN conjunct1] c1[THEN conjunct2]
        c2[THEN conjunct1] c2[THEN conjunct2] c3 c4 c5 c6[THEN conjunct1] c6[THEN conjunct2] c7 c8 c9)
qed

section \<open>Appending and growth: the claim\<close>







section \<open>Copy assignment\<close>

lemma separate_own:
  assumes "represents env w a xs" "represents env w b ys" "separate a b"
  shows "own b \<inter> own a = {}"
proof -
  have z: "capacity_m (data_m v) = 0 \<Longrightarrow> represents env w v zs \<Longrightarrow> own v = {}" for v zs
    using represents_bounds(6)[of env w v zs] by (simp add: own_def nullptr_def)
  from assms(3) consider "capacity_m (data_m a) = 0" | "capacity_m (data_m b) = 0"
    | "blk (buffer_m (data_m a)) \<noteq> blk (buffer_m (data_m b))"
    by (auto simp: separate_def)
  then show ?thesis
  proof cases
    case 1
    then show ?thesis using z[OF _ assms(1)] by simp
  next
    case 2
    then show ?thesis using z[OF _ assms(2)] by simp
  next
    case 3
    then show ?thesis by (auto simp: own_def)
  qed
qed

lemma own_less: "represents env w v xs \<Longrightarrow> own v \<subseteq> {..<length (heap w)}"
  by (auto simp: own_def dest: represents_blk_less)

lemma represents_kept:
  assumes r: "represents env w b ys" and k: "kept (own b) w w'"
  shows "represents env w' b ys"
proof (cases "capacity_m (data_m b) = 0")
  case True
  then show ?thesis using r by (simp add: represents_def)
next
  case False
  from represents_block[OF r False] obtain n where
    n: "buffer_m (data_m b) = Ptr (Some n) 0" "n < length (heap w)"
      "heap w ! n = Some (map Obj ys @ replicate (capacity_m (data_m b) - length ys) Raw)"
    by blast
  have "n \<in> own b" using n(1) by (simp add: own_def)
  then have "heap w' ! n = heap w ! n" "n < length (heap w')"
    using k n(2) by (auto simp: kept_def)
  then show ?thesis
    using representsI[where b = n and w = w' and v = b and xs = ys and env = env]
      represents_bounds[OF r] n False by simp
qed

text \<open>
  Whatever is then called on \<open>a\<close>, an array \<open>b\<close> that owns other storage keeps its elements,
  when the calls return and when one of them throws.
\<close>

lemma run_calls_independent:
  assumes ra: "represents env w a xs" and rb: "represents env w b ys" and sep: "separate a b"
    and opd: "\<forall>c\<in>set cs. own b \<inter> operand c = {}"
    and run: "run_calls env cs (a, w) = Return r (a2, w2) \<or> run_calls env cs (a, w) = Throw e (a2, w2)"
  shows "represents env w2 b ys"
proof -
  have "ends (run_calls env cs (a, w)) (\<lambda>s. kept (own b) w (snd s) \<and> own b \<inter> own (fst s) = {})"
    by (rule run_calls_kept[OF own_less[OF rb] separate_own[OF ra rb sep] opd])
  then have "kept (own b) w w2" using run by auto
  then show ?thesis by (rule represents_kept[OF rb])
qed

text \<open>
  C6. Copy assignment \<^verbatim>\<open>a = b\<close> between two arrays that own different storage. When it
  returns: if \<^verbatim>\<open>b.Size() > a.Capacity()\<close>, a copy of \<open>b\<close> has been constructed, swapped
  with \<open>a\<close>, and the old state of \<open>a\<close> destroyed; otherwise \<open>a\<close> keeps its buffer and
  nothing is allocated: the common prefix is copy-assigned element by element, then the
  extra elements of \<open>b\<close> are copy-constructed or the extra elements of \<open>a\<close> destroyed, and
  the size is that of \<open>b\<close>. In both cases \<open>a\<close> holds the elements of \<open>b\<close> and \<open>b\<close> is
  unchanged. After that no sequence of calls on \<open>a\<close> changes the elements of \<open>b\<close>, whether
  the sequence returns or ends by an exception: the calls are \<^verbatim>\<open>Reserve\<close>, \<^verbatim>\<open>Resize\<close>,
  \<^verbatim>\<open>PopBack\<close>, \<^verbatim>\<open>Emplace\<close>, \<^verbatim>\<open>EmplaceBack\<close>, \<^verbatim>\<open>PushBack\<close>, \<^verbatim>\<open>Insert\<close>, \<^verbatim>\<open>Erase\<close>,
  assignment to an element, copy assignment, and move assignment or \<^verbatim>\<open>Swap\<close> with an array
  that does not hold the buffer of \<open>b\<close>. And the assignment does return when no operation
  of the element type throws and, where a copy is built, its allocation succeeds.
\<close>

theorem copy_assignment:
  assumes "represents env w a xs" and "represents env w b ys" and "separate a b"
  shows
    "(\<forall>u a' w'. Vector_copy_assign env (Other b) (a, w) = Return u (a', w') \<longrightarrow>
        (Vector_Capacity a < Vector_Size b \<longrightarrow>
           (\<exists>tmp w1. Vector_copy env b w = Return tmp w1 \<and> Vector_Swap tmp a = (a, a') \<and>
              Vector_dtor a w1 = Return () w')) \<and>
        (Vector_Size b \<le> Vector_Capacity a \<longrightarrow>
           data_m a' = data_m a \<and> Vector_Size a' = Vector_Size b \<and> new_calls w' = new_calls w \<and>
           trace w' = trace w @
             map (\<lambda>(y, x). CopyAssign y x) (zip (take (Vector_Size b) xs) (take (Vector_Size a) ys)) @
             map CopyCtor (drop (Vector_Size a) ys) \<and>
           dtor_log w' = dtor_log w @
             map (\<lambda>j. ptr_add (Vector_begin a) (Vector_Size b + j)) [0..<Vector_Size a - Vector_Size b]) \<and>
        elements w' a' = Some ys \<and> elements w' b = Some ys \<and>
        (\<forall>cs r e a2 w2. (\<forall>c\<in>set cs. own b \<inter> operand c = {}) \<longrightarrow>
           run_calls env cs (a', w') = Return r (a2, w2) \<or> run_calls env cs (a', w') = Throw e (a2, w2) \<longrightarrow>
           elements w2 b = Some ys)) \<and>
     (no_throw env \<and>
      (Vector_Capacity a < Vector_Size b \<longrightarrow> \<not> allocation_fails env w (Vector_Size b * sizeof env)) \<longrightarrow>
        (\<exists>a' w'. Vector_copy_assign env (Other b) (a, w) = Return () (a', w')))"
proof -
  note A = represents_bounds[OF assms(1)]
  note B = represents_bounds[OF assms(2)]
  have sz: "Vector_Size a = length xs" "Vector_Size b = length ys" "Vector_Capacity a = capacity_m (data_m a)"
    using A(1) B(1) by (simp_all add: Vector_Size_def Vector_Capacity_def RawMemory_Capacity_def)
  have ret: "(Vector_Capacity a < Vector_Size b \<longrightarrow>
           (\<exists>tmp w1. Vector_copy env b w = Return tmp w1 \<and> Vector_Swap tmp a = (a, a') \<and>
              Vector_dtor a w1 = Return () w')) \<and>
        (Vector_Size b \<le> Vector_Capacity a \<longrightarrow>
           data_m a' = data_m a \<and> Vector_Size a' = Vector_Size b \<and> new_calls w' = new_calls w \<and>
           trace w' = trace w @
             map (\<lambda>(y, x). CopyAssign y x) (zip (take (Vector_Size b) xs) (take (Vector_Size a) ys)) @
             map CopyCtor (drop (Vector_Size a) ys) \<and>
           dtor_log w' = dtor_log w @
             map (\<lambda>j. ptr_add (Vector_begin a) (Vector_Size b + j)) [0..<Vector_Size a - Vector_Size b]) \<and>
        elements w' a' = Some ys \<and> elements w' b = Some ys \<and>
        (\<forall>cs r e a2 w2. (\<forall>c\<in>set cs. own b \<inter> operand c = {}) \<longrightarrow>
           run_calls env cs (a', w') = Return r (a2, w2) \<or> run_calls env cs (a', w') = Throw e (a2, w2) \<longrightarrow>
           elements w2 b = Some ys)"
    if run: "Vector_copy_assign env (Other b) (a, w) = Return u (a', w')" for u a' w'
  proof -
    note hyps = assms run
    have main: "represents env w' a' ys \<and> represents env w' b ys \<and> separate a' b"
    proof (cases "capacity_m (data_m a) < length ys")
      case True
      from copy_assign_grow[OF hyps True] show ?thesis by blast
    next
      case False
      from copy_assign_in_place[OF hyps False] show ?thesis by blast
    qed
    have g: "Vector_Capacity a < Vector_Size b \<longrightarrow>
            (\<exists>tmp w1. Vector_copy env b w = Return tmp w1 \<and> Vector_Swap tmp a = (a, a') \<and>
               Vector_dtor a w1 = Return () w')"
    proof
      assume "Vector_Capacity a < Vector_Size b"
      then have "capacity_m (data_m a) < length ys" using sz by simp
      from copy_assign_grow[OF hyps this] obtain w1 where
        "Vector_copy env b w = Return a' w1" "Vector_dtor a w1 = Return () w'" by blast
      then show "\<exists>tmp w1. Vector_copy env b w = Return tmp w1 \<and> Vector_Swap tmp a = (a, a') \<and>
               Vector_dtor a w1 = Return () w'"
        by (intro exI[of _ a'] exI[of _ w1]) simp
    qed
    have p: "Vector_Size b \<le> Vector_Capacity a \<longrightarrow>
            data_m a' = data_m a \<and> Vector_Size a' = Vector_Size b \<and> new_calls w' = new_calls w \<and>
            trace w' = trace w @
              map (\<lambda>(y, x). CopyAssign y x) (zip (take (Vector_Size b) xs) (take (Vector_Size a) ys)) @
              map CopyCtor (drop (Vector_Size a) ys) \<and>
            dtor_log w' = dtor_log w @
              map (\<lambda>j. ptr_add (Vector_begin a) (Vector_Size b + j)) [0..<Vector_Size a - Vector_Size b]"
    proof
      assume "Vector_Size b \<le> Vector_Capacity a"
      then have "\<not> capacity_m (data_m a) < length ys" using sz by simp
      from copy_assign_in_place[OF hyps this] represents_bounds(1)[of env w' a' ys] main
      show "data_m a' = data_m a \<and> Vector_Size a' = Vector_Size b \<and> new_calls w' = new_calls w \<and>
            trace w' = trace w @
              map (\<lambda>(y, x). CopyAssign y x) (zip (take (Vector_Size b) xs) (take (Vector_Size a) ys)) @
              map CopyCtor (drop (Vector_Size a) ys) \<and>
            dtor_log w' = dtor_log w @
              map (\<lambda>j. ptr_add (Vector_begin a) (Vector_Size b + j)) [0..<Vector_Size a - Vector_Size b]"
        unfolding sz by (simp add: Vector_Size_def)
    qed
    have e: "elements w' a' = Some ys" "elements w' b = Some ys"
      using main by (blast intro: represents_elements)+
    have i: "\<forall>cs r e a2 w2. (\<forall>c\<in>set cs. own b \<inter> operand c = {}) \<longrightarrow>
           run_calls env cs (a', w') = Return r (a2, w2) \<or> run_calls env cs (a', w') = Throw e (a2, w2) \<longrightarrow>
           elements w2 b = Some ys"
    proof (intro allI impI)
      fix cs r e a2 w2
      assume "\<forall>c\<in>set cs. own b \<inter> operand c = {}"
        "run_calls env cs (a', w') = Return r (a2, w2) \<or> run_calls env cs (a', w') = Throw e (a2, w2)"
      from run_calls_independent[OF _ _ _ this] main have "represents env w2 b ys" by blast
      then show "elements w2 b = Some ys" by (rule represents_elements)
    qed
    show ?thesis
      by (rule conjI[OF g conjI[OF p conjI[OF e(1) conjI[OF e(2) i]]]])
  qed
  have tot: "no_throw env \<and>
      (Vector_Capacity a < Vector_Size b \<longrightarrow> \<not> allocation_fails env w (Vector_Size b * sizeof env)) \<longrightarrow>
        (\<exists>a' w'. Vector_copy_assign env (Other b) (a, w) = Return () (a', w'))"
    using Vector_copy_assign_total[OF assms(1,2)] unfolding sz by blast
  show ?thesis
    by (rule conjI[OF _ tot]) (use ret in blast)
qed

theorem copy_assignment_witness:
  "represents (elem_type 4 False True (throw_at 5 std_exception))
     (mk_world [Some [Obj 1, Raw], Some [Obj 7, Obj 8, Obj 9]] [] [] []) (vec 0 2 1) [1] \<and>
   represents (elem_type 4 False True (throw_at 5 std_exception))
     (mk_world [Some [Obj 1, Raw], Some [Obj 7, Obj 8, Obj 9]] [] [] []) (vec 1 3 3) [7, 8, 9] \<and>
   separate (vec 0 2 1) (vec 1 3 3) \<and>
   Vector_Capacity (vec 0 2 1) < Vector_Size (vec 1 3 3) \<and>
   Vector_copy_assign (elem_type 4 False True (throw_at 5 std_exception)) (Other (vec 1 3 3))
     (vec 0 2 1, mk_world [Some [Obj 1, Raw], Some [Obj 7, Obj 8, Obj 9]] [] [] []) =
     Return () (vec 2 3 3,
       mk_world [None, Some [Obj 7, Obj 8, Obj 9], Some [Obj 7, Obj 8, Obj 9]] [12]
         [CopyCtor 7, CopyCtor 8, CopyCtor 9] [Ptr (Some 0) 0]) \<and>
   elements
     (mk_world [None, Some [Obj 7, Obj 8, Obj 9], Some [Obj 7, Obj 8, Obj 9]] [12]
         [CopyCtor 7, CopyCtor 8, CopyCtor 9] [Ptr (Some 0) 0]) (vec 2 3 3) = Some [7, 8, 9] \<and>
   elements
     (mk_world [None, Some [Obj 7, Obj 8, Obj 9], Some [Obj 7, Obj 8, Obj 9]] [12]
         [CopyCtor 7, CopyCtor 8, CopyCtor 9] [Ptr (Some 0) 0]) (vec 1 3 3) = Some [7, 8, 9] \<and>
   run_calls (elem_type 4 False True (throw_at 5 std_exception)) [AssignAt 0 5, PushBack (ByCopy 6)]
     (vec 2 3 3,
       mk_world [None, Some [Obj 7, Obj 8, Obj 9], Some [Obj 7, Obj 8, Obj 9]] [12]
         [CopyCtor 7, CopyCtor 8, CopyCtor 9] [Ptr (Some 0) 0]) =
     Throw std_exception (vec 2 3 3,
       mk_world [None, Some [Obj 7, Obj 8, Obj 9], Some [Obj 5, Obj 8, Obj 9], None] [12, 24]
         [CopyCtor 7, CopyCtor 8, CopyCtor 9, MoveAssign 7 5, CopyCtor 6, CopyCtor 5]
         [Ptr (Some 0) 0, Ptr (Some 3) 3]) \<and>
   elements
     (mk_world [None, Some [Obj 7, Obj 8, Obj 9], Some [Obj 5, Obj 8, Obj 9], None] [12, 24]
         [CopyCtor 7, CopyCtor 8, CopyCtor 9, MoveAssign 7 5, CopyCtor 6, CopyCtor 5]
         [Ptr (Some 0) 0, Ptr (Some 3) 3]) (vec 1 3 3) = Some [7, 8, 9] \<and>
   represents (elem_type 4 False True never)
     (mk_world [Some [Obj 1, Raw, Raw, Raw], Some [Obj 7, Obj 8, Obj 9], Some [Obj 4]] [] [] []) (vec 0 4 1) [1] \<and>
   represents (elem_type 4 False True never)
     (mk_world [Some [Obj 1, Raw, Raw, Raw], Some [Obj 7, Obj 8, Obj 9], Some [Obj 4]] [] [] [])
     (vec 1 3 3) [7, 8, 9] \<and>
   separate (vec 0 4 1) (vec 1 3 3) \<and>
   Vector_Size (vec 1 3 3) \<le> Vector_Capacity (vec 0 4 1) \<and>
   no_throw (elem_type 4 False True never) \<and>
   Vector_copy_assign (elem_type 4 False True never) (Other (vec 1 3 3))
     (vec 0 4 1, mk_world [Some [Obj 1, Raw, Raw, Raw], Some [Obj 7, Obj 8, Obj 9], Some [Obj 4]] [] [] []) =
     Return () (vec 0 4 3,
       mk_world [Some [Obj 7, Obj 8, Obj 9, Raw], Some [Obj 7, Obj 8, Obj 9], Some [Obj 4]] []
         [CopyAssign 1 7, CopyCtor 8, CopyCtor 9] []) \<and>
   data_m (vec 0 4 3) = data_m (vec 0 4 1) \<and>
   elements
     (mk_world [Some [Obj 7, Obj 8, Obj 9, Raw], Some [Obj 7, Obj 8, Obj 9], Some [Obj 4]] []
         [CopyAssign 1 7, CopyCtor 8, CopyCtor 9] []) (vec 0 4 3) = Some [7, 8, 9] \<and>
   run_calls (elem_type 4 False True never)
     [AssignAt 0 5, Erase 1, Insert 0 (ByCopy 6), SwapWith (vec 2 1 1), PushBack (ByArgs 3),
      AssignFrom (Other (vec 1 3 3)), PopBack, Resize 4, Reserve 9, MoveFrom (vec 0 4 3)]
     (vec 0 4 3,
       mk_world [Some [Obj 7, Obj 8, Obj 9, Raw], Some [Obj 7, Obj 8, Obj 9], Some [Obj 4]] []
         [CopyAssign 1 7, CopyCtor 8, CopyCtor 9] []) =
     Return () (vec 0 4 3,
       mk_world [Some [Obj 6, Obj 5, Obj 9, Raw], Some [Obj 7, Obj 8, Obj 9], None, None, None, None,
                 Some [Obj 7, Obj 8, Obj 0, Obj 0, Raw, Raw, Raw, Raw, Raw]]
         [8, 12, 16, 36]
         [CopyAssign 1 7, CopyCtor 8, CopyCtor 9, MoveAssign 7 5, MoveAssign 8 9, CopyCtor 6, MoveCtor 9,
          MoveAssign 0 5, MoveAssign 0 6, ArgsCtor 3, CopyCtor 4, CopyCtor 7, CopyCtor 8, CopyCtor 9,
          CopyCtor 7, CopyCtor 8, DefaultCtor, DefaultCtor, CopyCtor 7, CopyCtor 8, CopyCtor 0, CopyCtor 0]
         [Ptr (Some 0) 2, Ptr (Some 2) 0, Ptr (Some 3) 0, Ptr (Some 3) 1, Ptr (Some 4) 2, Ptr (Some 4) 0,
          Ptr (Some 4) 1, Ptr (Some 5) 0, Ptr (Some 5) 1, Ptr (Some 5) 2, Ptr (Some 5) 3]) \<and>
   elements
     (mk_world [Some [Obj 6, Obj 5, Obj 9, Raw], Some [Obj 7, Obj 8, Obj 9], None, None, None, None,
                 Some [Obj 7, Obj 8, Obj 0, Obj 0, Raw, Raw, Raw, Raw, Raw]]
         [8, 12, 16, 36]
         [CopyAssign 1 7, CopyCtor 8, CopyCtor 9, MoveAssign 7 5, MoveAssign 8 9, CopyCtor 6, MoveCtor 9,
          MoveAssign 0 5, MoveAssign 0 6, ArgsCtor 3, CopyCtor 4, CopyCtor 7, CopyCtor 8, CopyCtor 9,
          CopyCtor 7, CopyCtor 8, DefaultCtor, DefaultCtor, CopyCtor 7, CopyCtor 8, CopyCtor 0, CopyCtor 0]
         [Ptr (Some 0) 2, Ptr (Some 2) 0, Ptr (Some 3) 0, Ptr (Some 3) 1, Ptr (Some 4) 2, Ptr (Some 4) 0,
          Ptr (Some 4) 1, Ptr (Some 5) 0, Ptr (Some 5) 1, Ptr (Some 5) 2, Ptr (Some 5) 3]) (vec 1 3 3) =
     Some [7, 8, 9] \<and>
   (\<exists>a' w'. Vector_copy_assign (elem_type 4 False True never) (Other (vec 1 3 3))
      (vec 0 4 1, mk_world [Some [Obj 1, Raw, Raw, Raw], Some [Obj 7, Obj 8, Obj 9], Some [Obj 4]] [] [] []) =
      Return () (a', w'))"
proof -
  let ?env = "elem_type 4 False True (throw_at 5 std_exception)"
  let ?w = "mk_world [Some [Obj 1, Raw], Some [Obj 7, Obj 8, Obj 9]] [] [] []"
  let ?wa = "mk_world [None, Some [Obj 7, Obj 8, Obj 9], Some [Obj 7, Obj 8, Obj 9]] [12]
         [CopyCtor 7, CopyCtor 8, CopyCtor 9] [Ptr (Some 0) 0]"
  let ?wb = "mk_world [None, Some [Obj 7, Obj 8, Obj 9], Some [Obj 5, Obj 8, Obj 9], None] [12, 24]
         [CopyCtor 7, CopyCtor 8, CopyCtor 9, MoveAssign 7 5, CopyCtor 6, CopyCtor 5]
         [Ptr (Some 0) 0, Ptr (Some 3) 3]"
  let ?cs = "[AssignAt 0 5, PushBack (ByCopy 6)]"
  let ?nev = "elem_type 4 False True never"
  let ?u = "mk_world [Some [Obj 1, Raw, Raw, Raw], Some [Obj 7, Obj 8, Obj 9], Some [Obj 4]] [] [] []"
  let ?ua = "mk_world [Some [Obj 7, Obj 8, Obj 9, Raw], Some [Obj 7, Obj 8, Obj 9], Some [Obj 4]] []
         [CopyAssign 1 7, CopyCtor 8, CopyCtor 9] []"
  let ?ub = "mk_world [Some [Obj 6, Obj 5, Obj 9, Raw], Some [Obj 7, Obj 8, Obj 9], None, None, None, None,
                 Some [Obj 7, Obj 8, Obj 0, Obj 0, Raw, Raw, Raw, Raw, Raw]]
         [8, 12, 16, 36]
         [CopyAssign 1 7, CopyCtor 8, CopyCtor 9, MoveAssign 7 5, MoveAssign 8 9, CopyCtor 6, MoveCtor 9,
          MoveAssign 0 5, MoveAssign 0 6, ArgsCtor 3, CopyCtor 4, CopyCtor 7, CopyCtor 8, CopyCtor 9,
          CopyCtor 7, CopyCtor 8, DefaultCtor, DefaultCtor, CopyCtor 7, CopyCtor 8, CopyCtor 0, CopyCtor 0]
         [Ptr (Some 0) 2, Ptr (Some 2) 0, Ptr (Some 3) 0, Ptr (Some 3) 1, Ptr (Some 4) 2, Ptr (Some 4) 0,
          Ptr (Some 4) 1, Ptr (Some 5) 0, Ptr (Some 5) 1, Ptr (Some 5) 2, Ptr (Some 5) 3]"
  let ?ds = "[AssignAt 0 5, Erase 1, Insert 0 (ByCopy 6), SwapWith (vec 2 1 1), PushBack (ByArgs 3),
      AssignFrom (Other (vec 1 3 3)), PopBack, Resize 4, Reserve 9, MoveFrom (vec 0 4 3)]"
  have ra: "represents ?env ?w (vec 0 2 1) [1]" by (simp add: model_defs)
  have rb: "represents ?env ?w (vec 1 3 3) [7, 8, 9]" by (simp add: model_defs)
  have sep: "separate (vec 0 2 1) (vec 1 3 3)" by (simp add: separate_def vec_def)
  have lt: "Vector_Capacity (vec 0 2 1) < Vector_Size (vec 1 3 3)" by (simp add: model_defs)
  have run: "Vector_copy_assign ?env (Other (vec 1 3 3)) (vec 0 2 1, ?w) = Return () (vec 2 3 3, ?wa)"
    by (simp add: model_defs)
  have opd: "\<forall>c\<in>set ?cs. own (vec 1 3 3) \<inter> operand c = {}" by simp
  have calls: "run_calls ?env ?cs (vec 2 3 3, ?wa) = Throw std_exception (vec 2 3 3, ?wb)"
    by (simp add: model_defs)
  have sa: "represents ?nev ?u (vec 0 4 1) [1]" by (simp add: model_defs)
  have sb: "represents ?nev ?u (vec 1 3 3) [7, 8, 9]" by (simp add: model_defs)
  have sep2: "separate (vec 0 4 1) (vec 1 3 3)" by (simp add: separate_def vec_def)
  have le: "Vector_Size (vec 1 3 3) \<le> Vector_Capacity (vec 0 4 1)" by (simp add: model_defs)
  have nt: "no_throw ?nev" by (simp add: no_throw_def elem_type_def never_def)
  have run2: "Vector_copy_assign ?nev (Other (vec 1 3 3)) (vec 0 4 1, ?u) = Return () (vec 0 4 3, ?ua)"
    by (simp add: model_defs)
  have opd2: "\<forall>c\<in>set ?ds. own (vec 1 3 3) \<inter> operand c = {}" by (simp add: own_def vec_def)
  have calls2: "run_calls ?nev ?ds (vec 0 4 3, ?ua) = Return () (vec 0 4 3, ?ub)"
    by (simp add: model_defs)
  note T = copy_assignment[OF ra rb sep, THEN conjunct1, rule_format, OF run]
  note U = copy_assignment[OF sa sb sep2, THEN conjunct1, rule_format, OF run2]
  have c1: "elements ?wa (vec 2 3 3) = Some [7, 8, 9]" "elements ?wa (vec 1 3 3) = Some [7, 8, 9]"
    using T by blast+
  have c2: "elements ?wb (vec 1 3 3) = Some [7, 8, 9]"
    using T opd calls by blast
  have c3: "data_m (vec 0 4 3) = data_m (vec 0 4 1)" "elements ?ua (vec 0 4 3) = Some [7, 8, 9]"
    using U le by blast+
  have c4: "elements ?ub (vec 1 3 3) = Some [7, 8, 9]"
    using U opd2 calls2 by blast
  have c5: "\<exists>a' w'. Vector_copy_assign ?nev (Other (vec 1 3 3)) (vec 0 4 1, ?u) = Return () (a', w')"
    using copy_assignment[OF sa sb sep2, THEN conjunct2] nt le by simp
  show ?thesis
    by (intro conjI ra rb sep lt run c1 calls c2 sa sb sep2 le nt run2 c3 calls2 c4 c5)
qed

section \<open>Emplace at capacity when relocation throws\<close>

text \<open>
  C1. When a copy or move throws during the relocation phase of \<^verbatim>\<open>Emplace\<close> on a full
  array, every element already placed in the new buffer is to be destroyed exactly once,
  the new buffer discarded, and the exception is to reach the caller with the array as it
  was. On the array \<open>[7]\<close> of capacity 1, with relocation by copy, \<^verbatim>\<open>Emplace(begin(), 9)\<close>
  constructs 9 in slot 0 of the new buffer; the copy of 7 into slot 1 throws
  \<^verbatim>\<open>std::exception\<close>. The inner handler runs \<^verbatim>\<open>destroy_n(new_data, offset + 1)\<close>, which
  destroys slot 0; the outer handler then runs \<^verbatim>\<open>destroy_at(new_data + offset)\<close> on the same
  slot, which holds no object any more. The call has no defined outcome.
\<close>

theorem Emplace_at_capacity_double_destruction:
  "represents (elem_type 4 False True (throw_at 1 std_exception)) (mk_world [Some [Obj 7]] [] [] []) (vec 0 1 1) [7] \<and>
   Vector_Size (vec 0 1 1) = Vector_Capacity (vec 0 1 1) \<and>
   relocate_n (elem_type 4 False True (throw_at 1 std_exception)) (Ptr (Some 0) 0) 1 (Ptr (Some 1) 1)
       (mk_world [Some [Obj 7], Some [Obj 9, Raw]] [8] [CopyCtor 9] []) =
     Throw std_exception (mk_world [Some [Obj 7], Some [Obj 9, Raw]] [8] [CopyCtor 9, CopyCtor 7] []) \<and>
   destroy_n (Ptr (Some 1) 0) (size_t (0 + 1))
       (mk_world [Some [Obj 7], Some [Obj 9, Raw]] [8] [CopyCtor 9, CopyCtor 7] []) =
     Return () (mk_world [Some [Obj 7], Some [Raw, Raw]] [8] [CopyCtor 9, CopyCtor 7] [Ptr (Some 1) 0]) \<and>
   destroy_at (ptr_add (Ptr (Some 1) 0) 0)
       (mk_world [Some [Obj 7], Some [Raw, Raw]] [8] [CopyCtor 9, CopyCtor 7] [Ptr (Some 1) 0]) = Fault \<and>
   Vector_Emplace (elem_type 4 False True (throw_at 1 std_exception)) (Vector_begin (vec 0 1 1)) (ByCopy 9)
       (vec 0 1 1, mk_world [Some [Obj 7]] [] [] []) = Fault"
  by (simp add: model_defs)

section \<open>The invariant after an insertion that throws\<close>

text \<open>
  C4. Every operation is to preserve the invariant: \<open>size \<le> capacity\<close>, slots \<open>[0, size)\<close>
  constructed, slots \<open>[size, capacity)\<close> raw. On the array \<open>[7]\<close> of capacity 2,
  \<^verbatim>\<open>Emplace(begin(), 9)\<close> builds the temporary, move-constructs 7 into slot 1 and then
  assigns the temporary to slot 0 by \<^verbatim>\<open>data_[offset] = std::move(tmp)\<close>, which stands
  after the \<^verbatim>\<open>try\<close> block. When that assignment throws, the exception reaches the caller
  with size 1 and both slots constructed: the invariant holds before the call and not
  after it.
\<close>

theorem Emplace_in_place_breaks_invariant:
  "vector_inv (elem_type 4 True True (throw_at 2 std_exception)) (mk_world [Some [Obj 7, Raw]] [] [] []) (vec 0 2 1) \<and>
   Vector_Emplace (elem_type 4 True True (throw_at 2 std_exception)) (Vector_begin (vec 0 2 1)) (ByCopy 9)
       (vec 0 2 1, mk_world [Some [Obj 7, Raw]] [] [] []) =
     Throw std_exception
       (vec 0 2 1, mk_world [Some [Obj 0, Obj 7]] [] [CopyCtor 9, MoveCtor 7, MoveAssign 0 9] []) \<and>
   \<not> vector_inv (elem_type 4 True True (throw_at 2 std_exception))
       (mk_world [Some [Obj 0, Obj 7]] [] [CopyCtor 9, MoveCtor 7, MoveAssign 0 9] []) (vec 0 2 1)"
  by (simp add: model_defs)

end
